theory Spec2Isabelle
  imports Complex_Main
begin

section \<open>JavaScript values\<close>

text \<open>
  The values of JSON, over the numbers \<open>'n\<close>. A value that \<open>JSON.parse\<close> has produced
  from a request body is a \<open>jsval\<close>: its numbers are Numbers, and a literal beyond the
  range of binary64, such as \<open>1e400\<close>, has become an infinity (\<open>NaN\<close> does not arise from
  parsing). What \<open>JSON.stringify\<close> has written to the data file and \<open>JSON.parse\<close> reads
  back from it is a \<open>json\<close>: its numbers are finite. A property that is absent from an
  object reads as \<open>undefined\<close>; such a field is an option with \<open>None\<close> for \<open>undefined\<close>.
  Finite Numbers are rationals, and \<open>-0\<close> is \<open>0\<close>.
\<close>

datatype 'n jsonv =
    JNull
  | JBool bool
  | JNum 'n
  | JStr string
  | JArr "'n jsonv list"
  | JObj "(string \<times> 'n jsonv) list"

text \<open>A Number: \<open>NaN\<close>, an infinity, or finite.\<close>

datatype jsnum = NaN | PInf | NInf | Fin rat

type_synonym json = "rat jsonv"

type_synonym jsval = "jsnum jsonv"

text \<open>
  What \<open>JSON.parse\<close> reads back after \<open>JSON.stringify\<close> has written a value: a Number
  that is not finite is written as \<open>null\<close>.
\<close>

primrec stored :: "jsval \<Rightarrow> json" where
  "stored JNull = JNull"
| "stored (JBool b) = JBool b"
| "stored (JNum n) = (case n of Fin r \<Rightarrow> JNum r | _ \<Rightarrow> JNull)"
| "stored (JStr s) = JStr s"
| "stored (JArr xs) = JArr (map stored xs)"
| "stored (JObj ps) = JObj (map (map_prod id stored) ps)"

text \<open>A value read from the data file, as a value of the language.\<close>

primrec embed :: "json \<Rightarrow> jsval" where
  "embed JNull = JNull"
| "embed (JBool b) = JBool b"
| "embed (JNum r) = JNum (Fin r)"
| "embed (JStr s) = JStr s"
| "embed (JArr xs) = JArr (map embed xs)"
| "embed (JObj ps) = JObj (map (map_prod id embed) ps)"

text \<open>
  What the host supplies: the numeric-literal parser \<open>StringToNumber\<close> of the language,
  the coercion of an array or object to a Number (\<open>ToPrimitive\<close>, then the parser;
  \<open>None\<close> when \<open>ToPrimitive\<close> throws a TypeError), and the offset of local time from UTC
  in milliseconds (\<open>LocalTZA(t, isUTC)\<close>).
\<close>

record host =
  StringToNumber :: "string \<Rightarrow> jsnum"
  ObjectToNumber :: "jsval \<Rightarrow> jsnum option"
  LocalTZA :: "int \<Rightarrow> bool \<Rightarrow> int"

text \<open>\<open>!v\<close> is true exactly on \<open>undefined\<close>, \<open>null\<close>, \<open>false\<close>, \<open>0\<close>, \<open>NaN\<close> and \<open>""\<close>.\<close>

fun truthy :: "jsval \<Rightarrow> bool" where
  "truthy JNull = False"
| "truthy (JBool b) = b"
| "truthy (JNum n) = (n \<noteq> NaN \<and> n \<noteq> Fin 0)"
| "truthy (JStr s) = (s \<noteq> [])"
| "truthy (JArr xs) = True"
| "truthy (JObj ps) = True"

fun falsy :: "jsval option \<Rightarrow> bool" where
  "falsy None = True"
| "falsy (Some v) = (\<not> truthy v)"

text \<open>
  \<open>a === b\<close> where \<open>a\<close> was parsed from the data file and \<open>b\<close> from the request:
  primitives compare by value, and two arrays or objects are never the same reference.
\<close>

fun strict_eq :: "json \<Rightarrow> jsval \<Rightarrow> bool" where
  "strict_eq JNull JNull = True"
| "strict_eq (JBool a) (JBool b) = (a = b)"
| "strict_eq (JNum a) (JNum b) = (b = Fin a)"
| "strict_eq (JStr a) (JStr b) = (a = b)"
| "strict_eq a b = False"

text \<open>\<open>Number(v)\<close>; \<open>None\<close> when the coercion throws.\<close>

fun ToNumber :: "host \<Rightarrow> jsval \<Rightarrow> jsnum option" where
  "ToNumber h JNull = Some (Fin 0)"
| "ToNumber h (JBool b) = Some (Fin (if b then 1 else 0))"
| "ToNumber h (JNum n) = Some n"
| "ToNumber h (JStr s) = Some (StringToNumber h s)"
| "ToNumber h (JArr xs) = ObjectToNumber h (JArr xs)"
| "ToNumber h (JObj ps) = ObjectToNumber h (JObj ps)"

text \<open>\<open>n || d\<close> on Numbers: \<open>NaN\<close> and \<open>0\<close> are falsy.\<close>

fun or_default :: "jsnum \<Rightarrow> rat \<Rightarrow> jsnum" where
  "or_default NaN d = Fin d"
| "or_default (Fin r) d = (if r = 0 then Fin d else Fin r)"
| "or_default n d = n"

text \<open>
  Rounding to binary64, to nearest with ties to even. \<open>expo x\<close> is the exponent of a
  positive \<open>x\<close>, the \<open>e\<close> with \<open>2 ^ e \<le> x < 2 ^ (e + 1)\<close>, found by stepping up from an
  exponent that is not above it. A Number has 53 significant bits from the exponent
  \<open>-1022\<close> on and is a multiple of \<open>2 ^ -1074\<close> below it. A result of \<open>2 ^ 1024\<close> or more
  is an infinity: that is one whose exponent is 1024 or more, or whose exponent is 1023
  and whose 53 bits have been rounded up to \<open>2 ^ 53\<close>.
\<close>

definition nearest_even :: "rat \<Rightarrow> int" where
  "nearest_even x =
     (let f = \<lfloor>x\<rfloor>; d = x - of_int f
      in if d < 1 / 2 then f
         else if 1 / 2 < d then f + 1
         else if even f then f else f + 1)"

function expo_up :: "rat \<Rightarrow> int \<Rightarrow> int" where
  "expo_up x e = (if 2 powi (e + 1) \<le> x then expo_up x (e + 1) else e)"
  by pat_completeness auto
termination
proof (relation "measure (\<lambda>(x, e). nat (\<lceil>x\<rceil> - e))")
  show "wf (measure (\<lambda>(x, e). nat (\<lceil>x\<rceil> - e)))"
    by simp
next
  fix x :: rat and e :: int
  assume a: "2 powi (e + 1) \<le> x"
  have "rat_of_int (e + 1) < 2 powi (e + 1)"
  proof (cases "0 \<le> e + 1")
    case True
    have "rat_of_int (e + 1) = of_nat (nat (e + 1))"
      using True by simp
    also have "\<dots> < 2 ^ nat (e + 1)"
      by (rule of_nat_less_two_power)
    also have "\<dots> = 2 powi (e + 1)"
      using True by (simp add: power_int_def)
    finally show ?thesis .
  next
    case False
    then have "rat_of_int (e + 1) < 0"
      by simp
    also have "(0 :: rat) < 2 powi (e + 1)"
      by simp
    finally show ?thesis .
  qed
  with a have "rat_of_int (e + 1) < x"
    by simp
  then have "e + 1 < \<lceil>x\<rceil>"
    by (simp add: less_ceiling_iff)
  then show "((x, e + 1), (x, e)) \<in> measure (\<lambda>(x, e). nat (\<lceil>x\<rceil> - e))"
    by simp
qed

declare expo_up.simps [simp del]

definition expo :: "rat \<Rightarrow> int" where
  "expo x = expo_up x (- \<lceil>1 / x\<rceil>)"

definition round64 :: "rat \<Rightarrow> jsnum" where
  "round64 x =
     (if x = 0 then Fin 0
      else
        (let e = max (expo \<bar>x\<bar>) (- 1022);
             q = 2 powi (e - 52);
             k = nearest_even (x / q)
         in if 1024 \<le> e \<or> (e = 1023 \<and> \<bar>k\<bar> = 2 ^ 53)
            then (if 0 < x then PInf else NInf)
            else Fin (of_int k * q)))"

text \<open>\<open>a + b\<close> on Numbers, the left one finite: the sum, rounded.\<close>

fun num_add :: "rat \<Rightarrow> jsnum \<Rightarrow> jsnum" where
  "num_add a NaN = NaN"
| "num_add a PInf = PInf"
| "num_add a NInf = NInf"
| "num_add a (Fin b) = round64 (a + b)"

text \<open>\<open>a >= b\<close> on Numbers, the left one finite: false when \<open>b\<close> is \<open>NaN\<close>.\<close>

fun num_ge :: "rat \<Rightarrow> jsnum \<Rightarrow> bool" where
  "num_ge a NaN = False"
| "num_ge a PInf = False"
| "num_ge a NInf = True"
| "num_ge a (Fin b) = (b \<le> a)"

section \<open>Dates\<close>

text \<open>
  A timestamp is the time value of a Date: milliseconds since the epoch, UTC. The ISO
  text that \<open>toISOString\<close> writes and \<open>new Date(iso)\<close> reads back stands for it. The
  functions below are the date algorithms of ECMAScript (Day, TimeWithinDay, DaysInYear,
  DayFromYear, YearFromTime, MonthFromTime, DateFromTime, MakeDay, MakeDate, TimeClip).
\<close>

type_synonym timestamp = int

definition msPerDay :: int where
  "msPerDay = 86400000"

definition Day :: "int \<Rightarrow> int" where
  "Day t = t div msPerDay"

definition TimeWithinDay :: "int \<Rightarrow> int" where
  "TimeWithinDay t = t mod msPerDay"

definition DaysInYear :: "int \<Rightarrow> int" where
  "DaysInYear y =
     (if y mod 4 \<noteq> 0 then 365
      else if y mod 100 \<noteq> 0 then 366
      else if y mod 400 \<noteq> 0 then 365
      else 366)"

definition DayFromYear :: "int \<Rightarrow> int" where
  "DayFromYear y =
     365 * (y - 1970) + (y - 1969) div 4 - (y - 1901) div 100 + (y - 1601) div 400"

text \<open>
  YearFromTime is the largest year \<open>y\<close> with \<open>TimeFromYear y \<le> t\<close>. It is computed from
  a year that is not after it, stepping up while the next year has begun.
\<close>

function year_search :: "int \<Rightarrow> int \<Rightarrow> int" where
  "year_search dn y = (if DayFromYear (y + 1) \<le> dn then year_search dn (y + 1) else y)"
  by pat_completeness auto
termination
proof (relation "measure (\<lambda>(dn, y). nat (dn + 1 - DayFromYear (y + 1)))")
  show "wf (measure (\<lambda>(dn, y). nat (dn + 1 - DayFromYear (y + 1))))"
    by simp
next
  fix dn y :: int
  assume a: "DayFromYear (y + 1) \<le> dn"
  have "(y - 1968) div 4 \<le> (y - 1967) div 4"
    by (rule zdiv_mono1) simp_all
  moreover have "(y - 1899) div 100 \<le> (y - 1900 + 100) div 100"
    by (rule zdiv_mono1) simp_all
  then have "(y - 1899) div 100 \<le> (y - 1900) div 100 + 1"
    by simp
  moreover have "(y - 1600) div 400 \<le> (y - 1599) div 400"
    by (rule zdiv_mono1) simp_all
  ultimately have "DayFromYear (y + 1) < DayFromYear (y + 1 + 1)"
    by (simp add: DayFromYear_def)
  with a show "((dn, y + 1), (dn, y)) \<in> measure (\<lambda>(dn, y). nat (dn + 1 - DayFromYear (y + 1)))"
    by simp
qed

declare year_search.simps [simp del]

definition YearFromDay :: "int \<Rightarrow> int" where
  "YearFromDay dn =
     year_search dn (1970 + (if 0 \<le> dn then dn div 366 else dn div 365))"

definition YearFromTime :: "int \<Rightarrow> int" where
  "YearFromTime t = YearFromDay (Day t)"

definition InLeapYear :: "int \<Rightarrow> int" where
  "InLeapYear t = (if DaysInYear (YearFromTime t) = 366 then 1 else 0)"

definition DayWithinYear :: "int \<Rightarrow> int" where
  "DayWithinYear t = Day t - DayFromYear (YearFromTime t)"

text \<open>The day within the year on which month \<open>m\<close> (0 to 11) begins.\<close>

definition monthStart :: "int \<Rightarrow> int \<Rightarrow> int" where
  "monthStart m leap =
     (if m = 0 then 0
      else if m = 1 then 31
      else if m = 2 then 59 + leap
      else if m = 3 then 90 + leap
      else if m = 4 then 120 + leap
      else if m = 5 then 151 + leap
      else if m = 6 then 181 + leap
      else if m = 7 then 212 + leap
      else if m = 8 then 243 + leap
      else if m = 9 then 273 + leap
      else if m = 10 then 304 + leap
      else 334 + leap)"

definition monthOfDay :: "int \<Rightarrow> int \<Rightarrow> int" where
  "monthOfDay d leap =
     (if d < 31 then 0
      else if d < 59 + leap then 1
      else if d < 90 + leap then 2
      else if d < 120 + leap then 3
      else if d < 151 + leap then 4
      else if d < 181 + leap then 5
      else if d < 212 + leap then 6
      else if d < 243 + leap then 7
      else if d < 273 + leap then 8
      else if d < 304 + leap then 9
      else if d < 334 + leap then 10
      else 11)"

definition MonthFromTime :: "int \<Rightarrow> int" where
  "MonthFromTime t = monthOfDay (DayWithinYear t) (InLeapYear t)"

definition DateFromTime :: "int \<Rightarrow> int" where
  "DateFromTime t =
     DayWithinYear t - monthStart (MonthFromTime t) (InLeapYear t) + 1"

text \<open>\<open>ToIntegerOrInfinity\<close> on a finite Number: truncation towards zero.\<close>

definition trunc :: "rat \<Rightarrow> int" where
  "trunc r = (if 0 \<le> r then \<lfloor>r\<rfloor> else \<lceil>r\<rceil>)"

text \<open>
  MakeDay for an integral year and date and a Number month; \<open>None\<close> is \<open>NaN\<close>. The
  day it finds is the first of month \<open>mn\<close> of year \<open>ym\<close>.
\<close>

fun MakeDay :: "int \<Rightarrow> jsnum \<Rightarrow> int \<Rightarrow> int option" where
  "MakeDay year (Fin month) date =
     (let m = trunc month;
          ym = year + m div 12;
          mn = m mod 12
      in Some (DayFromYear ym
               + monthStart mn (if DaysInYear ym = 366 then 1 else 0) + date - 1))"
| "MakeDay year month date = None"

definition MakeDate :: "int \<Rightarrow> int \<Rightarrow> int" where
  "MakeDate day time = day * msPerDay + time"

definition TimeClip :: "int \<Rightarrow> int option" where
  "TimeClip t = (if 8640000000000000 < \<bar>t\<bar> then None else Some t)"

definition LocalTime :: "host \<Rightarrow> int \<Rightarrow> int" where
  "LocalTime h t = t + LocalTZA h t True"

definition UTC :: "host \<Rightarrow> int \<Rightarrow> int" where
  "UTC h t = t - LocalTZA h t False"

text \<open>\<open>Date.prototype.setMonth(month)\<close> on a valid Date; \<open>None\<close> is an invalid Date.\<close>

definition setMonth :: "host \<Rightarrow> timestamp \<Rightarrow> jsnum \<Rightarrow> timestamp option" where
  "setMonth h d month =
     (let t = LocalTime h d in
      case MakeDay (YearFromTime t) month (DateFromTime t) of
        None \<Rightarrow> None
      | Some day \<Rightarrow> TimeClip (UTC h (MakeDate day (TimeWithinDay t))))"

datatype exn = RangeError | TypeError

text \<open>
  \<open>addMonths(date, months)\<close>: \<open>toISOString\<close> throws a RangeError on an invalid Date.
\<close>

definition addMonths :: "host \<Rightarrow> timestamp \<Rightarrow> jsnum \<Rightarrow> exn + timestamp" where
  "addMonths h date months =
     (case setMonth h date (num_add (of_int (MonthFromTime (LocalTime h date))) months) of
        None \<Rightarrow> Inl RangeError
      | Some u \<Rightarrow> Inr u)"

definition isExpired :: "timestamp \<Rightarrow> timestamp \<Rightarrow> bool" where
  "isExpired expiry now = (expiry \<le> now)"

text \<open>The number of days of month \<open>m\<close> (0 to 11) of year \<open>y\<close>.\<close>

definition DaysInMonth :: "int \<Rightarrow> int \<Rightarrow> int" where
  "DaysInMonth y m =
     (if m = 1 then (if DaysInYear y = 366 then 29 else 28)
      else if m = 3 \<or> m = 5 \<or> m = 8 \<or> m = 10 then 30
      else 31)"

section \<open>Identifiers and keys\<close>

text \<open>
  \<open>genId\<close> and \<open>genLicenseKey\<close> read \<open>Math.random().toString(36)\<close>; the texts it returns
  (ASCII) are arguments here, in the order the code asks for them.
\<close>

definition slice :: "nat \<Rightarrow> nat \<Rightarrow> string \<Rightarrow> string" where
  "slice a b s = take (b - a) (drop a s)"

definition toUpperCase :: "string \<Rightarrow> string" where
  "toUpperCase s =
     map (\<lambda>c. let n = (of_char c :: nat) in
               if 97 \<le> n \<and> n \<le> 122 then char_of (n - 32) else c) s"

definition isUpperAlnum :: "char \<Rightarrow> bool" where
  "isUpperAlnum c =
     (let n = (of_char c :: nat) in (65 \<le> n \<and> n \<le> 90) \<or> (48 \<le> n \<and> n \<le> 57))"

definition padEnd :: "nat \<Rightarrow> char \<Rightarrow> string \<Rightarrow> string" where
  "padEnd n c s = s @ replicate (n - length s) c"

definition genId :: "string \<Rightarrow> string \<Rightarrow> string \<Rightarrow> string" where
  "genId prefix r1 r2 = prefix @ ''_'' @ slice 2 10 r1 @ slice 2 6 r2"

definition block :: "string \<Rightarrow> string" where
  "block r = padEnd 4 (CHR ''X'') (slice 0 4 (filter isUpperAlnum (toUpperCase r)))"

definition genLicenseKey :: "string \<Rightarrow> string \<Rightarrow> string \<Rightarrow> string \<Rightarrow> string" where
  "genLicenseKey r1 r2 r3 r4 =
     ''LIC-'' @ block r1 @ ''-'' @ block r2 @ ''-'' @ block r3 @ ''-'' @ block r4"

section \<open>The data file\<close>

datatype status = StActive | StExpired | StBanned

record activation =
  deviceId :: json
  activatedAt :: timestamp
  lastSeen :: timestamp

record customer =
  id_c :: string
  name :: json
  email :: json
  licenseKey :: string
  status :: status
  maxDevices :: json
  createdAt :: timestamp
  expiresAt :: timestamp
  activations :: "activation list"

text \<open>
  \<open>licenses.json\<close>: missing, holding text on which \<open>JSON.parse\<close> throws, or holding the
  document \<open>{ customers: [...] }\<close> that \<open>writeData\<close> wrote.
\<close>

datatype datafile = Absent | Unparsable | Parsed "customer list"

fun readData :: "datafile \<Rightarrow> customer list" where
  "readData (Parsed customers) = customers"
| "readData Absent = []"
| "readData Unparsable = []"

text \<open>
  \<open>writeData\<close> writes the document with \<open>JSON.stringify\<close>. The records hold the values
  of a request as \<open>stored\<close> makes them, which is what \<open>JSON.stringify\<close> writes of them and
  \<open>JSON.parse\<close> reads back, so the document that is read after a write is the one that
  was written.
\<close>

definition writeData :: "customer list \<Rightarrow> datafile" where
  "writeData customers = Parsed customers"

text \<open>
  \<open>xs.find(p)\<close> returns a reference to the first element that satisfies \<open>p\<close>; assigning
  to its fields changes that element of the array.
\<close>

fun update_first :: "('a \<Rightarrow> bool) \<Rightarrow> ('a \<Rightarrow> 'a) \<Rightarrow> 'a list \<Rightarrow> 'a list" where
  "update_first p f [] = []"
| "update_first p f (x # xs) = (if p x then f x # xs else x # update_first p f xs)"

section \<open>The requests\<close>

datatype response =
    ValidationError
  | NotFound
  | InvalidLicense
  | Banned
  | Expired timestamp
  | DeviceLimitExceeded json
  | NotActivated
  | Activated timestamp json json
  | Verified status timestamp
  | CustomerJson customer
  | CustomerList "customer list"
  | Threw exn

text \<open>
  A handler takes the clock as \<open>clk\<close>: \<open>clk k\<close> is what its \<open>k\<close>-th reading of the time
  (\<open>Date.now()\<close> or \<open>new Date()\<close>, counted from 0) returns. It returns the response and the
  data file it leaves. \<open>Threw e\<close> is an exception that leaves the handler.
\<close>

text \<open>\<open>Number(months) || d\<close>, where \<open>months\<close> defaults to \<open>d\<close> when it is undefined.\<close>

fun months_or :: "host \<Rightarrow> jsval option \<Rightarrow> rat \<Rightarrow> jsnum option" where
  "months_or h None d = Some (or_default (Fin d) d)"
| "months_or h (Some v) d = map_option (\<lambda>n. or_default n d) (ToNumber h v)"

definition hasDevice :: "jsval \<Rightarrow> activation \<Rightarrow> bool" where
  "hasDevice dev a = strict_eq (deviceId a) dev"

definition hasKey :: "jsval \<Rightarrow> customer \<Rightarrow> bool" where
  "hasKey key x = strict_eq (JStr (licenseKey x)) key"

definition hasId :: "string \<Rightarrow> customer \<Rightarrow> bool" where
  "hasId i x = (id_c x = i)"

text \<open>
  What a handler does once \<open>find\<close> has returned the customer \<open>c\<close>: the response, and what
  \<open>c\<close> has become when the handler writes the file (\<open>None\<close> when it returns without
  writing). A value of the request that goes into the record or into the response is
  written by \<open>JSON.stringify\<close>, so it appears as \<open>stored\<close> makes it.
\<close>

definition activate_customer ::
  "host \<Rightarrow> (nat \<Rightarrow> timestamp) \<Rightarrow> jsval \<Rightarrow> customer \<Rightarrow> response \<times> customer option" where
  "activate_customer h clk dev c =
     (if status c = StBanned then (Banned, None)
      else if isExpired (expiresAt c) (clk 0)
      then (Expired (expiresAt c), Some (c\<lparr>status := StExpired\<rparr>))
      else
        (case find (hasDevice dev) (activations c) of
           None \<Rightarrow>
             (case ToNumber h (embed (maxDevices c)) of
                None \<Rightarrow> (Threw TypeError, None)
              | Some n \<Rightarrow>
                  if num_ge (of_nat (length (activations c))) n
                  then (DeviceLimitExceeded (maxDevices c), None)
                  else (Activated (expiresAt c) (stored dev) (name c),
                        Some (c\<lparr>activations := activations c @
                                   [\<lparr>deviceId = stored dev, activatedAt = clk 1,
                                     lastSeen = clk 2\<rparr>],
                                 status := StActive\<rparr>)))
         | Some existing \<Rightarrow>
             (Activated (expiresAt c) (stored dev) (name c),
              Some (c\<lparr>activations :=
                         update_first (hasDevice dev) (\<lambda>a. a\<lparr>lastSeen := clk 1\<rparr>) (activations c),
                       status := StActive\<rparr>))))"

definition verify_customer ::
  "(nat \<Rightarrow> timestamp) \<Rightarrow> jsval \<Rightarrow> customer \<Rightarrow> response \<times> customer option" where
  "verify_customer clk dev c =
     (case find (hasDevice dev) (activations c) of
        None \<Rightarrow> (NotActivated, None)
      | Some activation \<Rightarrow>
          (let st = (if status c \<noteq> StBanned
                     then (if isExpired (expiresAt c) (clk 1) then StExpired else StActive)
                     else status c)
           in (Verified st (expiresAt c),
               Some (c\<lparr>activations :=
                          update_first (hasDevice dev) (\<lambda>a. a\<lparr>lastSeen := clk 0\<rparr>) (activations c),
                        status := st\<rparr>))))"

definition renew_customer ::
  "host \<Rightarrow> (nat \<Rightarrow> timestamp) \<Rightarrow> jsval option \<Rightarrow> customer \<Rightarrow> response \<times> customer option" where
  "renew_customer h clk months c =
     (let baseDate = (if isExpired (expiresAt c) (clk 0) then clk 1 else expiresAt c) in
      case months_or h months 3 of
        None \<Rightarrow> (Threw TypeError, None)
      | Some n \<Rightarrow>
          (case addMonths h baseDate n of
             Inl e \<Rightarrow> (Threw e, None)
           | Inr t \<Rightarrow> (CustomerJson (c\<lparr>expiresAt := t\<rparr>), Some (c\<lparr>expiresAt := t\<rparr>))))"

text \<open>\<open>banned\<close> defaults to \<open>true\<close> when it is undefined.\<close>

definition ban_customer ::
  "(nat \<Rightarrow> timestamp) \<Rightarrow> jsval option \<Rightarrow> customer \<Rightarrow> response \<times> customer option" where
  "ban_customer clk banned c =
     (let c' = c\<lparr>status :=
                  (if (case banned of None \<Rightarrow> True | Some b \<Rightarrow> truthy b) then StBanned
                   else if isExpired (expiresAt c) (clk 0) then StExpired else StActive)\<rparr>
      in (CustomerJson c', Some c'))"

text \<open>
  The lookup and the write around it: \<open>missing\<close> is the response when \<open>find\<close> returns
  nothing.
\<close>

definition on_found ::
  "(customer \<Rightarrow> bool) \<Rightarrow> response \<Rightarrow> (customer \<Rightarrow> response \<times> customer option)
     \<Rightarrow> datafile \<Rightarrow> response \<times> datafile" where
  "on_found p missing step file =
     (let db = readData file in
      case find p db of
        None \<Rightarrow> (missing, file)
      | Some c \<Rightarrow>
          (case step c of
             (r, None) \<Rightarrow> (r, file)
           | (r, Some c') \<Rightarrow> (r, writeData (update_first p (\<lambda>_. c') db))))"

text \<open>\<open>POST /api/licenses/activate\<close>\<close>

definition activate ::
  "host \<Rightarrow> (nat \<Rightarrow> timestamp) \<Rightarrow> jsval option \<Rightarrow> jsval option \<Rightarrow> datafile
     \<Rightarrow> response \<times> datafile" where
  "activate h clk key dev file =
     (case (key, dev) of
        (Some k, Some d) \<Rightarrow>
          if \<not> truthy k \<or> \<not> truthy d then (ValidationError, file)
          else on_found (hasKey k) InvalidLicense (activate_customer h clk d) file
      | _ \<Rightarrow> (ValidationError, file))"

text \<open>\<open>GET /api/licenses/verify\<close>\<close>

definition verify ::
  "(nat \<Rightarrow> timestamp) \<Rightarrow> jsval option \<Rightarrow> jsval option \<Rightarrow> datafile \<Rightarrow> response \<times> datafile" where
  "verify clk key dev file =
     (case (key, dev) of
        (Some k, Some d) \<Rightarrow>
          if \<not> truthy k \<or> \<not> truthy d then (ValidationError, file)
          else on_found (hasKey k) InvalidLicense (verify_customer clk d) file
      | _ \<Rightarrow> (ValidationError, file))"

text \<open>\<open>PUT /api/customers/:id/renew\<close>, past \<open>requireAdmin\<close>\<close>

definition renew ::
  "host \<Rightarrow> (nat \<Rightarrow> timestamp) \<Rightarrow> string \<Rightarrow> jsval option \<Rightarrow> datafile \<Rightarrow> response \<times> datafile" where
  "renew h clk i months file = on_found (hasId i) NotFound (renew_customer h clk months) file"

text \<open>\<open>PUT /api/customers/:id/ban\<close>, past \<open>requireAdmin\<close>\<close>

definition ban ::
  "(nat \<Rightarrow> timestamp) \<Rightarrow> string \<Rightarrow> jsval option \<Rightarrow> datafile \<Rightarrow> response \<times> datafile" where
  "ban clk i banned file = on_found (hasId i) NotFound (ban_customer clk banned) file"

text \<open>\<open>GET /api/customers\<close>, past \<open>requireAdmin\<close>\<close>

definition list_customers :: "datafile \<Rightarrow> response \<times> datafile" where
  "list_customers file = (CustomerList (readData file), file)"

text \<open>
  \<open>POST /api/customers\<close>, past \<open>requireAdmin\<close>. \<open>rnd k\<close> is the \<open>k\<close>-th text that
  \<open>Math.random().toString(36)\<close> returns.
\<close>

definition issue ::
  "host \<Rightarrow> (nat \<Rightarrow> timestamp) \<Rightarrow> (nat \<Rightarrow> string) \<Rightarrow> jsval option \<Rightarrow> jsval option
     \<Rightarrow> jsval option \<Rightarrow> jsval option \<Rightarrow> datafile \<Rightarrow> response \<times> datafile" where
  "issue h clk rnd nm em months maxDev file =
     (case (nm, em) of
        (Some n, Some e) \<Rightarrow>
          if \<not> truthy n \<or> \<not> truthy e then (ValidationError, file)
          else
            (let db = readData file in
             case months_or h months 6 of
               None \<Rightarrow> (Threw TypeError, file)
             | Some k \<Rightarrow>
                 (case addMonths h (clk 1) k of
                    Inl x \<Rightarrow> (Threw x, file)
                  | Inr t \<Rightarrow>
                      (let customer =
                         \<lparr>id_c = genId ''cust'' (rnd 0) (rnd 1),
                          name = stored n,
                          email = stored e,
                          licenseKey = genLicenseKey (rnd 2) (rnd 3) (rnd 4) (rnd 5),
                          status = StActive,
                          maxDevices = (case maxDev of None \<Rightarrow> JNum 2 | Some v \<Rightarrow> stored v),
                          createdAt = clk 0,
                          expiresAt = t,
                          activations = []\<rparr>
                       in (CustomerJson customer, writeData (db @ [customer])))))
      | _ \<Rightarrow> (ValidationError, file))"

text \<open>The routes of the application, and a run of requests served one after another.\<close>

datatype request =
    IssueCustomer "jsval option" "jsval option" "jsval option" "jsval option"
  | ListCustomers
  | RenewCustomer string "jsval option"
  | BanCustomer string "jsval option"
  | ActivateLicense "jsval option" "jsval option"
  | VerifyLicense "jsval option" "jsval option"

fun handle ::
  "host \<Rightarrow> (nat \<Rightarrow> timestamp) \<Rightarrow> (nat \<Rightarrow> string) \<Rightarrow> request \<Rightarrow> datafile
     \<Rightarrow> response \<times> datafile" where
  "handle h clk rnd (IssueCustomer nm em months maxDev) file =
     issue h clk rnd nm em months maxDev file"
| "handle h clk rnd ListCustomers file = list_customers file"
| "handle h clk rnd (RenewCustomer i months) file = renew h clk i months file"
| "handle h clk rnd (BanCustomer i banned) file = ban clk i banned file"
| "handle h clk rnd (ActivateLicense key dev) file = activate h clk key dev file"
| "handle h clk rnd (VerifyLicense key dev) file = verify clk key dev file"

fun serve ::
  "host \<Rightarrow> ((nat \<Rightarrow> timestamp) \<times> (nat \<Rightarrow> string) \<times> request) list \<Rightarrow> datafile
     \<Rightarrow> response list \<times> datafile" where
  "serve h [] file = ([], file)"
| "serve h ((clk, rnd, req) # rest) file =
     (case handle h clk rnd req file of
        (r, file') \<Rightarrow> (case serve h rest file' of (rs, file'') \<Rightarrow> (r # rs, file'')))"

text \<open>The responses that report a failure.\<close>

fun is_failure :: "response \<Rightarrow> bool" where
  "is_failure (Activated t d n) = False"
| "is_failure (Verified s t) = False"
| "is_failure (CustomerJson c) = False"
| "is_failure (CustomerList cs) = False"
| "is_failure r = True"

fun is_Expired :: "response \<Rightarrow> bool" where
  "is_Expired (Expired t) = True"
| "is_Expired r = False"

text \<open>A Ban request that lifts the ban: \<open>banned\<close> is given and falsy.\<close>

fun is_unban :: "request \<Rightarrow> bool" where
  "is_unban (BanCustomer i (Some b)) = (\<not> truthy b)"
| "is_unban req = False"

text \<open>The status that lifting a ban computes from the expiry.\<close>

definition unbanned :: "(nat \<Rightarrow> timestamp) \<Rightarrow> customer \<Rightarrow> customer" where
  "unbanned clk c =
     c\<lparr>status := (if isExpired (expiresAt c) (clk 0) then StExpired else StActive)\<rparr>"

text \<open>
  Activate requests for one key: the pair \<open>(clk, d)\<close> is the request for device \<open>d\<close> whose
  handler reads the clock \<open>clk\<close>. The handlers do not yield between reading the file and
  writing it, so requests that are in flight together are served one after another, in
  some order: a list of requests, whatever its order, is a run of \<open>serve\<close>.
\<close>

definition activation_requests ::
  "jsval \<Rightarrow> ((nat \<Rightarrow> timestamp) \<times> jsval) list
     \<Rightarrow> ((nat \<Rightarrow> timestamp) \<times> (nat \<Rightarrow> string) \<times> request) list" where
  "activation_requests key xs =
     map (\<lambda>(clk, d). (clk, (\<lambda>k. []), ActivateLicense (Some key) (Some d))) xs"

text \<open>The entry that an Activate for a new device appends.\<close>

definition admitted :: "(nat \<Rightarrow> timestamp) \<times> jsval \<Rightarrow> activation" where
  "admitted x = \<lparr>deviceId = stored (snd x), activatedAt = fst x 1, lastSeen = fst x 2\<rparr>"

text \<open>No device of the list, once it is stored, is \<open>===\<close> to a later one.\<close>

fun distinct_ids :: "jsval list \<Rightarrow> bool" where
  "distinct_ids [] = True"
| "distinct_ids (d # ds) = ((\<forall>e\<in>set ds. \<not> strict_eq (stored d) e) \<and> distinct_ids ds)"

section \<open>Sample data\<close>

text \<open>A host on UTC whose parser rejects every text, and a customer as Issue creates it.\<close>

definition utcHost :: host where
  "utcHost =
     \<lparr>StringToNumber = (\<lambda>s. NaN), ObjectToNumber = (\<lambda>v. Some NaN), LocalTZA = (\<lambda>t u. 0)\<rparr>"

text \<open>
  A host four hours behind UTC that sets its clocks back by one hour at
  2024-11-03T06:00Z, as US Eastern time did. A local time that occurs twice is read as
  its first occurrence.
\<close>

definition dstHost :: host where
  "dstHost =
     \<lparr>StringToNumber = (\<lambda>s. NaN), ObjectToNumber = (\<lambda>v. Some NaN),
      LocalTZA = (\<lambda>t u. if u then (if t < 1730613600000 then - 14400000 else - 18000000)
                        else (if t < 1730599200000 then - 14400000 else - 18000000))\<rparr>"

definition acme :: customer where
  "acme = \<lparr>id_c = ''cust_1'', name = JStr ''A'', email = JStr ''a@x.com'',
            licenseKey = ''LIC-AAAA-BBBB-CCCC-DDDD'', status = StActive, maxDevices = JNum 1,
            createdAt = 0, expiresAt = 5000, activations = []\<rparr>"

definition acmeKey :: jsval where
  "acmeKey = JStr ''LIC-AAAA-BBBB-CCCC-DDDD''"

definition dev1 :: activation where
  "dev1 = \<lparr>deviceId = JStr ''dev1'', activatedAt = 10, lastSeen = 20\<rparr>"

definition fresh :: customer where
  "fresh = \<lparr>id_c = ''cust_k3j5x9q2k3j5'', name = JStr ''A'', email = JStr ''a@x.com'',
             licenseKey = ''LIC-0K3J-0K3J-0K3J-0K3J'', status = StActive, maxDevices = JNum 2,
             createdAt = 1706659200000, expiresAt = 1722384000000, activations = []\<rparr>"

section \<open>Lookup and write\<close>

lemma on_found_missing:
  "find p (readData file) = None \<Longrightarrow> on_found p missing step file = (missing, file)"
  by (simp add: on_found_def)

lemma on_found_nowrite:
  "find p (readData file) = Some c \<Longrightarrow> step c = (r, None)
     \<Longrightarrow> on_found p missing step file = (r, file)"
  by (simp add: on_found_def)

lemma on_found_write:
  "find p (readData file) = Some c \<Longrightarrow> step c = (r, Some c')
     \<Longrightarrow> on_found p missing step file = (r, Parsed (update_first p (\<lambda>_. c') (readData file)))"
  by (simp add: on_found_def writeData_def)

lemma find_hasDevice_None:
  "(find (hasDevice dev) xs = None) = (\<forall>a\<in>set xs. \<not> strict_eq (deviceId a) dev)"
  by (auto simp: find_None_iff hasDevice_def)

section \<open>Verification never activates\<close>

text \<open>
  C8. Verify with a key of an existing license and a device that has no Activation entry
  on it answers NotActivated and leaves the data file as it was: no entry is created and
  nothing is written.
\<close>

theorem verify_not_activated:
  assumes "truthy key" and "truthy dev"
    and "find (hasKey key) (readData file) = Some c"
    and "\<forall>a\<in>set (activations c). \<not> strict_eq (deviceId a) dev"
  shows "verify clk (Some key) (Some dev) file = (NotActivated, file)"
proof -
  have "find (hasDevice dev) (activations c) = None"
    using assms(4) by (simp add: find_hasDevice_None)
  then have "verify_customer clk dev c = (NotActivated, None)"
    by (simp add: verify_customer_def)
  with assms(1-3) show ?thesis
    by (simp add: verify_def on_found_nowrite)
qed

theorem verify_not_activated_witness:
  "verify (\<lambda>k. 1000) (Some acmeKey) (Some (JStr ''dev2''))
     (Parsed [acme\<lparr>activations := [dev1]\<rparr>])
   = (NotActivated, Parsed [acme\<lparr>activations := [dev1]\<rparr>])"
  using verify_not_activated [of acmeKey "JStr ''dev2''"
      "Parsed [acme\<lparr>activations := [dev1]\<rparr>]" "acme\<lparr>activations := [dev1]\<rparr>" "\<lambda>k. 1000"]
  by (simp add: acme_def acmeKey_def dev1_def hasKey_def)

section \<open>A missing or unreadable data file\<close>

text \<open>
  C10. When the data file is missing or its text does not parse, every request is served
  as on an empty customer collection and nothing is thrown: the list is empty, a lookup
  by id answers NotFound, and a lookup by licence key answers InvalidLicense (once the
  key and the device have passed the check that they are present).
\<close>

theorem unreadable_file_is_empty:
  assumes "file = Absent \<or> file = Unparsable"
  shows "list_customers file = (CustomerList [], file)
       \<and> renew h clk i months file = (NotFound, file)
       \<and> ban clk i banned file = (NotFound, file)
       \<and> activate h clk key dev file =
           (if falsy key \<or> falsy dev then ValidationError else InvalidLicense, file)
       \<and> verify clk key dev file =
           (if falsy key \<or> falsy dev then ValidationError else InvalidLicense, file)
       \<and> fst (issue h clk rnd nm em months maxDev file)
           = fst (issue h clk rnd nm em months maxDev (Parsed []))"
proof -
  have e: "readData file = []"
    using assms by auto
  have "list_customers file = (CustomerList [], file)"
    by (simp add: list_customers_def e)
  moreover have "renew h clk i months file = (NotFound, file)"
    by (simp add: renew_def on_found_missing e)
  moreover have "ban clk i banned file = (NotFound, file)"
    by (simp add: ban_def on_found_missing e)
  moreover have "activate h clk key dev file =
           (if falsy key \<or> falsy dev then ValidationError else InvalidLicense, file)"
    by (cases key; cases dev) (simp_all add: activate_def on_found_missing e)
  moreover have "verify clk key dev file =
           (if falsy key \<or> falsy dev then ValidationError else InvalidLicense, file)"
    by (cases key; cases dev) (simp_all add: verify_def on_found_missing e)
  moreover have "fst (issue h clk rnd nm em months maxDev file)
           = fst (issue h clk rnd nm em months maxDev (Parsed []))"
    by (simp add: issue_def e Let_def split: option.splits sum.splits)
  ultimately show ?thesis by blast
qed

theorem unreadable_file_is_empty_witness:
  "list_customers Unparsable = (CustomerList [], Unparsable)
   \<and> renew utcHost (\<lambda>k. 1000) ''cust_1'' None Absent = (NotFound, Absent)
   \<and> ban (\<lambda>k. 1000) ''cust_1'' None Absent = (NotFound, Absent)
   \<and> activate utcHost (\<lambda>k. 1000) (Some acmeKey) (Some (JStr ''dev1'')) Unparsable
       = (InvalidLicense, Unparsable)
   \<and> verify (\<lambda>k. 1000) (Some acmeKey) (Some (JStr ''dev1'')) Absent = (InvalidLicense, Absent)"
  using unreadable_file_is_empty [of Unparsable utcHost "\<lambda>k. 1000" "''cust_1''" None None
      "Some acmeKey" "Some (JStr ''dev1'')"]
    unreadable_file_is_empty [of Absent utcHost "\<lambda>k. 1000" "''cust_1''" None None
      "Some acmeKey" "Some (JStr ''dev1'')"]
  by (simp add: acmeKey_def)

section \<open>Failed requests\<close>

lemma length_update_first [simp]: "length (update_first p f xs) = length xs"
  by (induction xs) auto

lemma update_first_const:
  "find p xs = Some c \<Longrightarrow> update_first p (\<lambda>_. f c) xs = update_first p f xs"
  by (induction xs) auto

lemma nth_update_first:
  "i < length xs \<Longrightarrow>
     update_first p f xs ! i = xs ! i
     \<or> (update_first p f xs ! i = f (xs ! i) \<and> find p xs = Some (xs ! i))"
proof (induction xs arbitrary: i)
  case Nil
  then show ?case by simp
next
  case (Cons x xs)
  then show ?case by (cases i) auto
qed

lemma on_found_cases:
  assumes "on_found p missing step file = (r, file')"
  obtains (missing) "find p (readData file) = None" "r = missing" "file' = file"
  | (nowrite) c where "find p (readData file) = Some c" "step c = (r, None)" "file' = file"
  | (wrote) c c' where "find p (readData file) = Some c" "step c = (r, Some c')"
      "file' = Parsed (update_first p (\<lambda>_. c') (readData file))"
  using assms
  by (auto simp: on_found_def writeData_def Let_def split: option.splits prod.splits)

lemma activate_customer_write:
  assumes "activate_customer h clk dev c = (r, Some c')" and "is_failure r"
  shows "r = Expired (expiresAt c) \<and> c' = c\<lparr>status := StExpired\<rparr>"
  using assms
  by (auto simp: activate_customer_def split: if_splits option.splits)

lemma verify_customer_write:
  "verify_customer clk dev c = (r, Some c') \<Longrightarrow> \<not> is_failure r"
  by (auto simp: verify_customer_def Let_def split: if_splits option.splits)

lemma renew_customer_write:
  "renew_customer h clk months c = (r, Some c') \<Longrightarrow> \<not> is_failure r"
  by (auto simp: renew_customer_def Let_def split: if_splits option.splits sum.splits)

lemma ban_customer_write:
  "ban_customer clk banned c = (r, Some c') \<Longrightarrow> \<not> is_failure r"
  by (auto simp: ban_customer_def Let_def)

lemma activate_customer_Expired:
  "activate_customer h clk dev c = (r, None) \<Longrightarrow> \<not> is_Expired r"
  by (auto simp: activate_customer_def split: if_splits option.splits)

lemma activate_failure:
  assumes "activate h clk key dev file = (r, file')" and "is_failure r"
  shows "if is_Expired r
         then \<exists>k. key = Some k \<and>
                file' = Parsed (update_first (hasKey k) (\<lambda>c. c\<lparr>status := StExpired\<rparr>) (readData file))
         else file' = file"
proof (cases "\<exists>k d. key = Some k \<and> dev = Some d \<and> truthy k \<and> truthy d")
  case False
  then have "activate h clk key dev file = (ValidationError, file)"
    by (cases key; cases dev) (auto simp: activate_def)
  with assms show ?thesis by auto
next
  case True
  then obtain k d where kd: "key = Some k" "dev = Some d" "truthy k" "truthy d"
    by blast
  then have "on_found (hasKey k) InvalidLicense (activate_customer h clk d) file = (r, file')"
    using assms(1) by (simp add: activate_def)
  then show ?thesis
  proof (cases rule: on_found_cases)
    case missing
    then show ?thesis by simp
  next
    case (nowrite c)
    then show ?thesis using activate_customer_Expired by auto
  next
    case (wrote c c')
    with assms(2) have "r = Expired (expiresAt c)" "c' = c\<lparr>status := StExpired\<rparr>"
      using activate_customer_write by blast+
    with wrote kd show ?thesis
      by (simp add: update_first_const [of _ _ _ "\<lambda>c. c\<lparr>status := StExpired\<rparr>"])
  qed
qed

lemma other_failure:
  assumes "on_found p missing step file = (r, file')" and "is_failure r"
    and "\<And>c r c'. step c = (r, Some c') \<Longrightarrow> \<not> is_failure r"
    and "\<And>c r. step c = (r, None) \<Longrightarrow> \<not> is_Expired r" and "\<not> is_Expired missing"
  shows "\<not> is_Expired r \<and> file' = file"
  using assms(1)
proof (cases rule: on_found_cases)
  case missing
  then show ?thesis using assms(5) by simp
next
  case (nowrite c)
  then show ?thesis using assms(4) by simp
next
  case (wrote c c')
  then show ?thesis using assms(2,3) by blast
qed

lemma verify_customer_Expired:
  "verify_customer clk dev c = (r, None) \<Longrightarrow> \<not> is_Expired r"
  by (auto simp: verify_customer_def Let_def split: if_splits option.splits)

lemma renew_customer_Expired:
  "renew_customer h clk months c = (r, None) \<Longrightarrow> \<not> is_Expired r"
  by (auto simp: renew_customer_def Let_def split: if_splits option.splits sum.splits)

lemma ban_customer_Expired:
  "ban_customer clk banned c = (r, None) \<Longrightarrow> \<not> is_Expired r"
  by (auto simp: ban_customer_def Let_def)

lemma verify_failure:
  assumes "verify clk key dev file = (r, file')" and "is_failure r"
  shows "\<not> is_Expired r \<and> file' = file"
proof (cases "\<exists>k d. key = Some k \<and> dev = Some d \<and> truthy k \<and> truthy d")
  case False
  then have "verify clk key dev file = (ValidationError, file)"
    by (cases key; cases dev) (auto simp: verify_def)
  with assms show ?thesis by auto
next
  case True
  then obtain k d where kd: "key = Some k" "dev = Some d" "truthy k" "truthy d"
    by blast
  then have "on_found (hasKey k) InvalidLicense (verify_customer clk d) file = (r, file')"
    using assms(1) by (simp add: verify_def)
  then show ?thesis
    using assms(2) verify_customer_write verify_customer_Expired
    by (rule other_failure) auto
qed

lemma issue_failure:
  assumes "issue h clk rnd nm em months maxDev file = (r, file')" and "is_failure r"
  shows "\<not> is_Expired r \<and> file' = file"
  using assms
  by (auto simp: issue_def Let_def split: option.splits sum.splits if_splits)

text \<open>
  C7, as the code has it. A request that fails leaves the data file exactly as it was,
  with one exception: an Activate that fails with Expired has written the file, and the
  file it leaves differs from the one before in the status of the record found by the
  key, which is now expired.
\<close>

theorem failure_leaves_file:
  assumes "handle h clk rnd req file = (r, file')" and "is_failure r"
  shows "if is_Expired r
         then \<exists>k d. req = ActivateLicense (Some k) d \<and>
                file' = Parsed (update_first (hasKey k) (\<lambda>c. c\<lparr>status := StExpired\<rparr>) (readData file))
         else file' = file"
proof (cases req)
  case (IssueCustomer nm em months maxDev)
  with assms show ?thesis using issue_failure by auto
next
  case ListCustomers
  with assms show ?thesis by (auto simp: list_customers_def)
next
  case (RenewCustomer i months)
  with assms(1) have "on_found (hasId i) NotFound (renew_customer h clk months) file = (r, file')"
    by (simp add: renew_def)
  then have "\<not> is_Expired r \<and> file' = file"
    using assms(2) renew_customer_write renew_customer_Expired
    by (rule other_failure) auto
  then show ?thesis by simp
next
  case (BanCustomer i banned)
  with assms(1) have "on_found (hasId i) NotFound (ban_customer clk banned) file = (r, file')"
    by (simp add: ban_def)
  then have "\<not> is_Expired r \<and> file' = file"
    using assms(2) ban_customer_write ban_customer_Expired
    by (rule other_failure) auto
  then show ?thesis by simp
next
  case (ActivateLicense key dev)
  with assms(1) have "activate h clk key dev file = (r, file')"
    by simp
  from activate_failure [OF this assms(2)] ActivateLicense show ?thesis
    by auto
next
  case (VerifyLicense key dev)
  with assms(1) have "verify clk key dev file = (r, file')"
    by simp
  from verify_failure [OF this assms(2)] show ?thesis
    by simp
qed

theorem failure_leaves_file_witness:
  "handle utcHost (\<lambda>k. 1000) (\<lambda>k. ''0.abcdefghijk'') (ActivateLicense (Some acmeKey) (Some (JStr ''dev2'')))
      (Parsed [acme\<lparr>activations := [dev1]\<rparr>])
    = (DeviceLimitExceeded (JNum 1), Parsed [acme\<lparr>activations := [dev1]\<rparr>])"
proof -
  have a: "handle utcHost (\<lambda>k. 1000) (\<lambda>k. ''0.abcdefghijk'') (ActivateLicense (Some acmeKey) (Some (JStr ''dev2'')))
      (Parsed [acme\<lparr>activations := [dev1]\<rparr>])
    = (DeviceLimitExceeded (JNum 1), snd (handle utcHost (\<lambda>k. 1000) (\<lambda>k. ''0.abcdefghijk'') (ActivateLicense (Some acmeKey) (Some (JStr ''dev2'')))
      (Parsed [acme\<lparr>activations := [dev1]\<rparr>])))"
    by (simp add: activate_def on_found_def activate_customer_def acme_def acmeKey_def hasKey_def
      isExpired_def writeData_def dev1_def hasDevice_def)
  from failure_leaves_file [OF a] show ?thesis
    using a by simp
qed

text \<open>
  C7 as stated fails: activating an expired licence whose stored status is still active
  answers Expired and leaves a data file that differs from the one before.
\<close>

theorem expired_activation_writes:
  "activate utcHost (\<lambda>k. 6000) (Some acmeKey) (Some (JStr ''dev1'')) (Parsed [acme])
     = (Expired 5000, Parsed [acme\<lparr>status := StExpired\<rparr>])
   \<and> Parsed [acme\<lparr>status := StExpired\<rparr>] \<noteq> Parsed [acme]"
  by (simp add: activate_def on_found_def activate_customer_def acme_def acmeKey_def hasKey_def
      isExpired_def writeData_def)

section \<open>The ban\<close>

lemma on_found_banned:
  assumes "on_found p missing step file = (r, file')"
    and "\<And>c r c'. status c = StBanned \<Longrightarrow> step c = (r, Some c') \<Longrightarrow> status c' = StBanned"
    and "i < length (readData file)" and "status (readData file ! i) = StBanned"
  shows "i < length (readData file') \<and> status (readData file' ! i) = StBanned"
  using assms(1)
proof (cases rule: on_found_cases)
  case missing
  then show ?thesis using assms(3,4) by simp
next
  case (nowrite c)
  then show ?thesis using assms(3,4) by simp
next
  case (wrote c c')
  from nth_update_first [OF assms(3), of p "\<lambda>_. c'"]
  consider "update_first p (\<lambda>_. c') (readData file) ! i = readData file ! i"
    | "update_first p (\<lambda>_. c') (readData file) ! i = c'" "find p (readData file) = Some (readData file ! i)"
    by blast
  then have "status (update_first p (\<lambda>_. c') (readData file) ! i) = StBanned"
  proof cases
    case 1
    then show ?thesis using assms(4) by simp
  next
    case 2
    with wrote(1) have "c = readData file ! i" by simp
    with assms(4) have "status c = StBanned" by simp
    from assms(2) [OF this wrote(2)] 2(1) show ?thesis by simp
  qed
  with wrote(3) assms(3) show ?thesis by simp
qed

lemma activate_customer_banned:
  "status c = StBanned \<Longrightarrow> activate_customer h clk dev c = (r, Some c') \<Longrightarrow> status c' = StBanned"
  by (simp add: activate_customer_def)

lemma verify_customer_banned:
  "status c = StBanned \<Longrightarrow> verify_customer clk dev c = (r, Some c') \<Longrightarrow> status c' = StBanned"
  by (auto simp: verify_customer_def Let_def split: option.splits)

lemma renew_customer_banned:
  "status c = StBanned \<Longrightarrow> renew_customer h clk months c = (r, Some c') \<Longrightarrow> status c' = StBanned"
  by (auto simp: renew_customer_def Let_def split: option.splits sum.splits)

lemma ban_customer_banned:
  "\<not> is_unban (BanCustomer i banned) \<Longrightarrow> ban_customer clk banned c = (r, Some c')
     \<Longrightarrow> status c' = StBanned"
  by (cases banned) (auto simp: ban_customer_def Let_def)

lemma issue_file:
  "issue h clk rnd nm em months maxDev file = (r, file')
     \<Longrightarrow> file' = file \<or> (\<exists>c. file' = Parsed (readData file @ [c]))"
  by (auto simp: issue_def Let_def writeData_def split: option.splits sum.splits if_splits)

lemma issue_banned:
  assumes "issue h clk rnd nm em months maxDev file = (r, file')"
    and "i < length (readData file)" and "status (readData file ! i) = StBanned"
  shows "i < length (readData file') \<and> status (readData file' ! i) = StBanned"
  using issue_file [OF assms(1)] assms(2,3)
  by (auto simp: nth_append)

lemma handle_banned:
  assumes "handle h clk rnd req file = (r, file')" and "\<not> is_unban req"
    and "i < length (readData file)" and "status (readData file ! i) = StBanned"
  shows "i < length (readData file') \<and> status (readData file' ! i) = StBanned"
proof (cases req)
  case (IssueCustomer nm em months maxDev)
  with assms(1) have "issue h clk rnd nm em months maxDev file = (r, file')"
    by simp
  from issue_banned [OF this assms(3,4)] show ?thesis .
next
  case ListCustomers
  with assms show ?thesis by (auto simp: list_customers_def)
next
  case (RenewCustomer j months)
  with assms(1) have "on_found (hasId j) NotFound (renew_customer h clk months) file = (r, file')"
    by (simp add: renew_def)
  from on_found_banned [OF this renew_customer_banned assms(3,4)] show ?thesis .
next
  case (BanCustomer j banned)
  with assms(1) have "on_found (hasId j) NotFound (ban_customer clk banned) file = (r, file')"
    by (simp add: ban_def)
  moreover have "\<not> is_unban (BanCustomer j banned)"
    using assms(2) BanCustomer by simp
  ultimately show ?thesis
    using on_found_banned [OF _ ban_customer_banned [of j banned clk] assms(3,4),
        of "hasId j" NotFound "ban_customer clk banned" r file']
    by simp
next
  case (ActivateLicense key dev)
  show ?thesis
  proof (cases "\<exists>k d. key = Some k \<and> dev = Some d \<and> truthy k \<and> truthy d")
    case False
    then have "activate h clk key dev file = (ValidationError, file)"
      by (cases key; cases dev) (auto simp: activate_def)
    with assms ActivateLicense show ?thesis by auto
  next
    case True
    then obtain k d where kd: "key = Some k" "dev = Some d" "truthy k" "truthy d"
      by blast
    with assms(1) ActivateLicense
    have "on_found (hasKey k) InvalidLicense (activate_customer h clk d) file = (r, file')"
      by (simp add: activate_def)
    from on_found_banned [OF this activate_customer_banned assms(3,4)] show ?thesis .
  qed
next
  case (VerifyLicense key dev)
  show ?thesis
  proof (cases "\<exists>k d. key = Some k \<and> dev = Some d \<and> truthy k \<and> truthy d")
    case False
    then have "verify clk key dev file = (ValidationError, file)"
      by (cases key; cases dev) (auto simp: verify_def)
    with assms VerifyLicense show ?thesis by auto
  next
    case True
    then obtain k d where kd: "key = Some k" "dev = Some d" "truthy k" "truthy d"
      by blast
    with assms(1) VerifyLicense
    have "on_found (hasKey k) InvalidLicense (verify_customer clk d) file = (r, file')"
      by (simp add: verify_def)
    from on_found_banned [OF this verify_customer_banned assms(3,4)] show ?thesis .
  qed
qed

lemma unban_found:
  assumes "find (hasId j) (readData file) = Some c" and "\<not> truthy b"
  shows "ban clk j (Some b) file
         = (CustomerJson (unbanned clk c), Parsed (update_first (hasId j) (unbanned clk) (readData file)))"
proof -
  have "ban_customer clk (Some b) c = (CustomerJson (unbanned clk c), Some (unbanned clk c))"
    using assms(2) by (simp add: ban_customer_def unbanned_def Let_def)
  with assms(1) show ?thesis
    by (simp add: ban_def on_found_write update_first_const [of _ _ _ "unbanned clk"])
qed

text \<open>
  C2. A record whose status is banned keeps that status through every request that is not
  an unban (a Ban request whose \<open>banned\<close> is given and falsy): Activate, Verify, Renew, and
  also Issue, List and a Ban that bans, whatever the expiry. An unban of an existing
  customer stores the status computed from the expiry: expired when the licence has
  expired, active otherwise.
\<close>

theorem banned_until_unbanned:
  assumes "handle h clk rnd req file = (r, file')"
    and "i < length (readData file)" and "status (readData file ! i) = StBanned"
  shows "(\<not> is_unban req \<longrightarrow>
            i < length (readData file') \<and> status (readData file' ! i) = StBanned)
       \<and> (\<forall>j b c. req = BanCustomer j (Some b) \<and> \<not> truthy b
              \<and> find (hasId j) (readData file) = Some c \<longrightarrow>
            r = CustomerJson (unbanned clk c)
            \<and> file' = Parsed (update_first (hasId j) (unbanned clk) (readData file))
            \<and> status (unbanned clk c) = (if isExpired (expiresAt c) (clk 0) then StExpired else StActive))"
proof (intro conjI impI allI)
  assume "\<not> is_unban req"
  from handle_banned [OF assms(1) this assms(2,3)]
  show "i < length (readData file')" and "status (readData file' ! i) = StBanned"
    by simp_all
next
  fix j b c
  assume a: "req = BanCustomer j (Some b) \<and> \<not> truthy b \<and> find (hasId j) (readData file) = Some c"
  then have "ban clk j (Some b) file
         = (CustomerJson (unbanned clk c), Parsed (update_first (hasId j) (unbanned clk) (readData file)))"
    by (simp add: unban_found)
  with a assms(1)
  show "r = CustomerJson (unbanned clk c)"
    and "file' = Parsed (update_first (hasId j) (unbanned clk) (readData file))"
    by simp_all
  show "status (unbanned clk c) = (if isExpired (expiresAt c) (clk 0) then StExpired else StActive)"
    by (simp add: unbanned_def)
qed

theorem banned_until_unbanned_witness:
  "handle utcHost (\<lambda>k. 6000) (\<lambda>k. []) (VerifyLicense (Some acmeKey) (Some (JStr ''dev1'')))
       (Parsed [acme\<lparr>status := StBanned, activations := [dev1]\<rparr>])
     = (Verified StBanned 5000,
        Parsed [acme\<lparr>status := StBanned, activations := [dev1\<lparr>lastSeen := 6000\<rparr>]\<rparr>])
   \<and> handle utcHost (\<lambda>k. 6000) (\<lambda>k. []) (BanCustomer ''cust_1'' (Some (JBool False)))
       (Parsed [acme\<lparr>status := StBanned\<rparr>])
     = (CustomerJson (acme\<lparr>status := StExpired\<rparr>), Parsed [acme\<lparr>status := StExpired\<rparr>])"
proof -
  let ?f1 = "Parsed [acme\<lparr>status := StBanned, activations := [dev1]\<rparr>]"
  let ?f2 = "Parsed [acme\<lparr>status := StBanned\<rparr>]"
  let ?r1 = "handle utcHost (\<lambda>k. 6000) (\<lambda>k. []) (VerifyLicense (Some acmeKey) (Some (JStr ''dev1''))) ?f1"
  let ?r2 = "handle utcHost (\<lambda>k. 6000) (\<lambda>k. []) (BanCustomer ''cust_1'' (Some (JBool False))) ?f2"
  have 1: "?r1 = (Verified StBanned 5000, snd ?r1)"
    by (simp add: verify_def on_found_def verify_customer_def acme_def acmeKey_def dev1_def
        hasKey_def hasDevice_def writeData_def)
  have 2: "?r2 = (fst ?r2, snd ?r2)"
    by simp
  have s1: "snd ?r1 = Parsed [acme\<lparr>status := StBanned, activations := [dev1\<lparr>lastSeen := 6000\<rparr>]\<rparr>]"
    by (simp add: verify_def on_found_def verify_customer_def acme_def acmeKey_def dev1_def
        hasKey_def hasDevice_def writeData_def)
  from banned_until_unbanned [OF 1, of 0] banned_until_unbanned [OF 2, of 0]
  show ?thesis
    using 1 s1
    by (simp add: acme_def hasId_def unbanned_def isExpired_def prod_eq_iff)
qed

section \<open>Issue\<close>

lemma sample_issue:
  "issue utcHost (\<lambda>k. 1706659200000) (\<lambda>k. ''0.k3j5x9q2mzp'') (Some (JStr ''A''))
     (Some (JStr ''a@x.com'')) None None Absent = (CustomerJson fresh, Parsed [fresh])"
  by code_simp

text \<open>
  C6, as the code has it. Issue with a name and an email creates an active record with no
  activations. Its expiry is \<open>addMonths\<close> of the time of the request by 6 months when
  \<open>months\<close> is unspecified or \<open>Number(months)\<close> is \<open>NaN\<close> or 0, and by \<open>Number(months)\<close>
  otherwise. Its \<open>maxDevices\<close> is 2 when \<open>maxDevices\<close> is unspecified.
\<close>

theorem issue_defaults:
  assumes "truthy n" and "truthy e"
    and "issue h clk rnd (Some n) (Some e) months maxDev file = (CustomerJson c, file')"
  shows "file' = Parsed (readData file @ [c])
       \<and> status c = StActive \<and> activations c = [] \<and> createdAt c = clk 0
       \<and> (maxDev = None \<longrightarrow> maxDevices c = JNum 2)
       \<and> (\<exists>x. addMonths h (clk 1) x = Inr (expiresAt c)
            \<and> (months = None \<longrightarrow> x = Fin 6)
            \<and> (\<forall>v. months = Some v \<longrightarrow>
                 (\<exists>y. ToNumber h v = Some y
                      \<and> x = (if y = NaN \<or> y = Fin 0 then Fin 6 else y))))"
proof -
  from assms obtain x t where x: "months_or h months 6 = Some x"
    and t: "addMonths h (clk 1) x = Inr t"
    by (auto simp: issue_def Let_def split: option.splits sum.splits)
  with assms have c: "c = \<lparr>id_c = genId ''cust'' (rnd 0) (rnd 1), name = stored n,
          email = stored e,
          licenseKey = genLicenseKey (rnd 2) (rnd 3) (rnd 4) (rnd 5), status = StActive,
          maxDevices = (case maxDev of None \<Rightarrow> JNum 2 | Some v \<Rightarrow> stored v),
          createdAt = clk 0, expiresAt = t, activations = []\<rparr>"
    and f: "file' = Parsed (readData file @ [c])"
    by (auto simp: issue_def Let_def writeData_def)
  have m1: "months = None \<longrightarrow> x = Fin 6"
    using x by auto
  have m2: "\<forall>v. months = Some v \<longrightarrow>
                 (\<exists>y. ToNumber h v = Some y \<and> x = (if y = NaN \<or> y = Fin 0 then Fin 6 else y))"
  proof (intro allI impI)
    fix v assume "months = Some v"
    with x obtain y where y: "ToNumber h v = Some y" "x = or_default y 6"
      by auto
    have "or_default y 6 = (if y = NaN \<or> y = Fin 0 then Fin 6 else y)"
      by (cases y) auto
    with y show "\<exists>y. ToNumber h v = Some y \<and> x = (if y = NaN \<or> y = Fin 0 then Fin 6 else y)"
      by simp
  qed
  from t c have "addMonths h (clk 1) x = Inr (expiresAt c)"
    by simp
  with m1 m2 have "\<exists>x. addMonths h (clk 1) x = Inr (expiresAt c)
            \<and> (months = None \<longrightarrow> x = Fin 6)
            \<and> (\<forall>v. months = Some v \<longrightarrow>
                 (\<exists>y. ToNumber h v = Some y
                      \<and> x = (if y = NaN \<or> y = Fin 0 then Fin 6 else y)))"
    by blast
  moreover have "status c = StActive" "activations c = []" "createdAt c = clk 0"
    "maxDev = None \<longrightarrow> maxDevices c = JNum 2"
    using c by simp_all
  ultimately show ?thesis
    using f by blast
qed

theorem issue_defaults_witness:
  "issue utcHost (\<lambda>k. 1706659200000) (\<lambda>k. ''0.k3j5x9q2mzp'') (Some (JStr ''A''))
     (Some (JStr ''a@x.com'')) None None Absent = (CustomerJson fresh, Parsed [fresh])
   \<and> maxDevices fresh = JNum 2
   \<and> addMonths utcHost 1706659200000 (Fin 6) = Inr (expiresAt fresh)"
proof -
  have "truthy (JStr ''A'')" and "truthy (JStr ''a@x.com'')"
    by simp_all
  from issue_defaults [OF this sample_issue]
  have "maxDevices fresh = JNum 2"
    and "\<exists>x. addMonths utcHost 1706659200000 x = Inr (expiresAt fresh) \<and> x = Fin 6"
    by simp_all
  with sample_issue show ?thesis
    by simp
qed

text \<open>
  C6 as stated fails: a \<open>maxDevices\<close> that is given is stored as it is, with no coercion
  and no fallback, so the text \<open>"abc"\<close> and the number \<open>-1\<close> are both stored.
\<close>

theorem issue_keeps_maxDevices:
  "fst (issue utcHost (\<lambda>k. 0) (\<lambda>k. ''0.abc'') (Some (JStr ''A'')) (Some (JStr ''a@x.com''))
          None (Some (JStr ''abc'')) Absent)
     = CustomerJson \<lparr>id_c = ''cust_abcabc'', name = JStr ''A'', email = JStr ''a@x.com'',
         licenseKey = ''LIC-0ABC-0ABC-0ABC-0ABC'', status = StActive,
         maxDevices = JStr ''abc'', createdAt = 0, expiresAt = 15638400000, activations = []\<rparr>
   \<and> fst (issue utcHost (\<lambda>k. 0) (\<lambda>k. ''0.abc'') (Some (JStr ''A'')) (Some (JStr ''a@x.com''))
          None (Some (JNum (Fin (- 1)))) Absent)
     = CustomerJson \<lparr>id_c = ''cust_abcabc'', name = JStr ''A'', email = JStr ''a@x.com'',
         licenseKey = ''LIC-0ABC-0ABC-0ABC-0ABC'', status = StActive,
         maxDevices = JNum (- 1), createdAt = 0, expiresAt = 15638400000, activations = []\<rparr>"
  by code_simp

section \<open>The device limit\<close>

lemma find_update_first:
  "find p xs = Some c \<Longrightarrow> p (f c) \<Longrightarrow> find p (update_first p f xs) = Some (f c)"
  by (induction xs) auto

lemma update_first_twice:
  "find p xs = Some c \<Longrightarrow> p (f c) \<Longrightarrow>
     update_first p g (update_first p f xs) = update_first p (\<lambda>x. g (f x)) xs"
  by (induction xs) auto

lemma find_hasKey:
  "find (hasKey key) db = Some c \<Longrightarrow> licenseKey c' = licenseKey c \<Longrightarrow> hasKey key c'"
  by (auto simp: find_Some_iff hasKey_def)

lemma activate_new_device:
  assumes "truthy key" and "truthy d"
    and "find (hasKey key) (readData file) = Some c"
    and "status c \<noteq> StBanned" and "\<not> isExpired (expiresAt c) (clk 0)"
    and "find (hasDevice d) (activations c) = None"
    and "ToNumber h (embed (maxDevices c)) = Some n"
    and "\<not> num_ge (of_nat (length (activations c))) n"
  shows "activate h clk (Some key) (Some d) file
         = (Activated (expiresAt c) (stored d) (name c),
            Parsed (update_first (hasKey key)
              (\<lambda>_. c\<lparr>activations := activations c @ [admitted (clk, d)],
                       status := StActive\<rparr>) (readData file)))"
proof -
  have "activate_customer h clk d c
        = (Activated (expiresAt c) (stored d) (name c),
           Some (c\<lparr>activations := activations c @ [admitted (clk, d)],
                    status := StActive\<rparr>))"
    using assms(4-8) by (simp add: activate_customer_def admitted_def)
  with assms(1-3) show ?thesis
    by (simp add: activate_def on_found_write)
qed

lemma activate_over_limit:
  assumes "truthy key" and "truthy d"
    and "find (hasKey key) (readData file) = Some c"
    and "status c \<noteq> StBanned" and "\<not> isExpired (expiresAt c) (clk 0)"
    and "find (hasDevice d) (activations c) = None"
    and "ToNumber h (embed (maxDevices c)) = Some n"
    and "num_ge (of_nat (length (activations c))) n"
  shows "activate h clk (Some key) (Some d) file = (DeviceLimitExceeded (maxDevices c), file)"
proof -
  have "activate_customer h clk d c = (DeviceLimitExceeded (maxDevices c), None)"
    using assms(4-8) by (simp add: activate_customer_def)
  with assms(1-3) show ?thesis
    by (simp add: activate_def on_found_nowrite)
qed

lemma activate_known_device:
  assumes "truthy key" and "truthy d"
    and "find (hasKey key) (readData file) = Some c"
    and "status c \<noteq> StBanned" and "\<not> isExpired (expiresAt c) (clk 0)"
    and "find (hasDevice d) (activations c) = Some a"
  shows "activate h clk (Some key) (Some d) file
         = (Activated (expiresAt c) (stored d) (name c),
            Parsed (update_first (hasKey key)
              (\<lambda>_. c\<lparr>activations :=
                         update_first (hasDevice d) (\<lambda>a. a\<lparr>lastSeen := clk 1\<rparr>) (activations c),
                       status := StActive\<rparr>) (readData file)))"
proof -
  have "activate_customer h clk d c
        = (Activated (expiresAt c) (stored d) (name c),
           Some (c\<lparr>activations :=
                      update_first (hasDevice d) (\<lambda>a. a\<lparr>lastSeen := clk 1\<rparr>) (activations c),
                    status := StActive\<rparr>))"
    using assms(4-6) by (simp add: activate_customer_def)
  with assms(1-3) show ?thesis
    by (simp add: activate_def on_found_write)
qed

lemma serve_append:
  "serve h (xs @ ys) file =
     (case serve h xs file of
        (rs, file') \<Rightarrow> (case serve h ys file' of (rs', file'') \<Rightarrow> (rs @ rs', file'')))"
  by (induction xs arbitrary: "file") (auto split: prod.splits)

lemma distinct_ids_append:
  "distinct_ids (xs @ ys) =
     (distinct_ids xs \<and> distinct_ids ys
      \<and> (\<forall>d\<in>set xs. \<forall>e\<in>set ys. \<not> strict_eq (stored d) e))"
  by (induction xs) auto

text \<open>While there is room, each request for a device that has no entry appends one.\<close>

lemma serve_admits:
  assumes "truthy key"
    and "find (hasKey key) (readData file) = Some c"
    and "status c \<noteq> StBanned"
    and "maxDevices c = JNum (of_nat N)"
    and "length (activations c) + length xs \<le> N"
    and "\<forall>x\<in>set xs. truthy (snd x) \<and> fst x 0 < expiresAt c"
    and "\<forall>a\<in>set (activations c). \<forall>x\<in>set xs. \<not> strict_eq (deviceId a) (snd x)"
    and "distinct_ids (map snd xs)"
    and "xs \<noteq> []"
  shows "serve h (activation_requests key xs) file
         = (map (\<lambda>x. Activated (expiresAt c) (stored (snd x)) (name c)) xs,
            Parsed (update_first (hasKey key)
              (\<lambda>_. c\<lparr>activations := activations c @ map admitted xs, status := StActive\<rparr>)
              (readData file)))"
  using assms(2-9)
proof (induction xs arbitrary: "file" c)
  case Nil
  then show ?case by simp
next
  case (Cons x xs)
  obtain clk d where x: "x = (clk, d)"
    by (cases x)
  let ?c1 = "c\<lparr>activations := activations c @ [admitted x], status := StActive\<rparr>"
  let ?f1 = "Parsed (update_first (hasKey key) (\<lambda>_. ?c1) (readData file))"
  have absent: "find (hasDevice d) (activations c) = None"
    using Cons.prems(6) x by (simp add: find_hasDevice_None)
  have room: "\<not> num_ge (of_nat (length (activations c))) (Fin (of_nat N))"
    using Cons.prems(4) by simp
  have step: "activate h clk (Some key) (Some d) file
              = (Activated (expiresAt c) (stored d) (name c), ?f1)"
    using activate_new_device [where d = d and clk = clk and h = h
        and n = "Fin (of_nat N)", OF assms(1) _ Cons.prems(1,2) _ absent _ room]
      Cons.prems(3,5) x
    by (simp add: isExpired_def)
  show ?case
  proof (cases "xs = []")
    case True
    with step x show ?thesis
      by (simp add: activation_requests_def)
  next
    case False
    have k1: "hasKey key ?c1"
      using find_hasKey [OF Cons.prems(1)] by simp
    have found: "find (hasKey key) (readData ?f1) = Some ?c1"
      using find_update_first [OF Cons.prems(1), of "\<lambda>_. ?c1"] k1 by simp
    have others: "\<forall>a\<in>set (activations ?c1). \<forall>x\<in>set xs. \<not> strict_eq (deviceId a) (snd x)"
      using Cons.prems(6,7) x by (auto simp: admitted_def)
    have d1: "distinct_ids (map snd xs)"
      using Cons.prems(7) by simp
    have "serve h (activation_requests key xs) ?f1
          = (map (\<lambda>x. Activated (expiresAt ?c1) (stored (snd x)) (name ?c1)) xs,
             Parsed (update_first (hasKey key)
               (\<lambda>_. ?c1\<lparr>activations := activations ?c1 @ map admitted xs, status := StActive\<rparr>)
               (readData ?f1)))"
      using Cons.IH [OF found _ _ _ _ others d1 False] Cons.prems(2,3,4,5)
      by simp
    moreover have "update_first (hasKey key)
               (\<lambda>_. ?c1\<lparr>activations := activations ?c1 @ map admitted xs, status := StActive\<rparr>)
               (readData ?f1)
             = update_first (hasKey key)
               (\<lambda>_. c\<lparr>activations := activations c @ map admitted (x # xs), status := StActive\<rparr>)
               (readData file)"
      using update_first_twice [OF Cons.prems(1), of "\<lambda>_. ?c1"] k1 by simp
    ultimately show ?thesis
      using step x by (simp add: activation_requests_def)
  qed
qed

text \<open>Once the limit is reached, each request for a device that has no entry is refused.\<close>

lemma serve_rejects:
  assumes "truthy key"
    and "find (hasKey key) (readData file) = Some c"
    and "status c \<noteq> StBanned"
    and "maxDevices c = JNum (of_nat N)"
    and "N \<le> length (activations c)"
    and "\<forall>x\<in>set ys. truthy (snd x) \<and> fst x 0 < expiresAt c"
    and "\<forall>a\<in>set (activations c). \<forall>x\<in>set ys. \<not> strict_eq (deviceId a) (snd x)"
  shows "serve h (activation_requests key ys) file
         = (replicate (length ys) (DeviceLimitExceeded (JNum (of_nat N))), file)"
  using assms(6,7)
proof (induction ys)
  case Nil
  then show ?case by (simp add: activation_requests_def)
next
  case (Cons y ys)
  obtain clk d where y: "y = (clk, d)"
    by (cases y)
  have absent: "find (hasDevice d) (activations c) = None"
    using Cons.prems(2) y by (simp add: find_hasDevice_None)
  have full: "num_ge (of_nat (length (activations c))) (Fin (of_nat N))"
    using assms(5) by simp
  have "activate h clk (Some key) (Some d) file = (DeviceLimitExceeded (maxDevices c), file)"
    using activate_over_limit [where d = d and clk = clk and h = h
        and n = "Fin (of_nat N)", OF assms(1) _ assms(2,3) _ absent _ full]
      assms(4) Cons.prems(1) y
    by (simp add: isExpired_def)
  moreover have "serve h (activation_requests key ys) file
         = (replicate (length ys) (DeviceLimitExceeded (JNum (of_nat N))), file)"
    using Cons.IH Cons.prems by simp
  ultimately show ?case
    using y assms(4) by (simp add: activation_requests_def)
qed

lemma activation_requests_append:
  "activation_requests key (xs @ ys) = activation_requests key xs @ activation_requests key ys"
  by (simp add: activation_requests_def)

text \<open>
  On a licence with no activation and \<open>maxDevices = N\<close>: \<open>N\<close> requests for distinct devices
  are admitted, and the requests for further devices that follow are refused.
\<close>

lemma serve_limit:
  assumes "truthy key"
    and "find (hasKey key) (readData file) = Some c"
    and "status c \<noteq> StBanned" and "activations c = []"
    and "maxDevices c = JNum (of_nat N)"
    and "length xs = N"
    and "\<forall>x\<in>set (xs @ ys). truthy (snd x) \<and> fst x 0 < expiresAt c"
    and "distinct_ids (map snd (xs @ ys))"
  shows "serve h (activation_requests key (xs @ ys)) file
         = (map (\<lambda>x. Activated (expiresAt c) (stored (snd x)) (name c)) xs
              @ replicate (length ys) (DeviceLimitExceeded (JNum (of_nat N))),
            (if xs = [] then file
             else Parsed (update_first (hasKey key)
                    (\<lambda>_. c\<lparr>activations := map admitted xs, status := StActive\<rparr>)
                    (readData file))))"
proof (cases "xs = []")
  case True
  have "serve h (activation_requests key ys) file
        = (replicate (length ys) (DeviceLimitExceeded (JNum (of_nat N))), file)"
    using assms(4,6,7) True
    by (intro serve_rejects [OF assms(1,2,3,5)]) simp_all
  with True show ?thesis
    by simp
next
  case False
  let ?c1 = "c\<lparr>activations := map admitted xs, status := StActive\<rparr>"
  let ?f1 = "Parsed (update_first (hasKey key) (\<lambda>_. ?c1) (readData file))"
  have first: "serve h (activation_requests key xs) file
               = (map (\<lambda>x. Activated (expiresAt c) (stored (snd x)) (name c)) xs, ?f1)"
    using serve_admits [OF assms(1,2,3,5), of xs h] assms(4,6,7,8) False
    by (simp add: distinct_ids_append)
  have k1: "hasKey key ?c1"
    using find_hasKey [OF assms(2)] by simp
  have found: "find (hasKey key) (readData ?f1) = Some ?c1"
    using find_update_first [OF assms(2), of "\<lambda>_. ?c1"] k1 by simp
  have others: "\<forall>a\<in>set (activations ?c1). \<forall>x\<in>set ys. \<not> strict_eq (deviceId a) (snd x)"
    using assms(8) by (auto simp: distinct_ids_append admitted_def)
  have "serve h (activation_requests key ys) ?f1
        = (replicate (length ys) (DeviceLimitExceeded (JNum (of_nat N))), ?f1)"
    using assms(3,5,6,7) others
    by (intro serve_rejects [OF assms(1) found]) simp_all
  with first False show ?thesis
    by (simp add: activation_requests_append serve_append)
qed

text \<open>
  C1, as the code has it. Take a licence that is not banned, has no activation yet and has
  \<open>maxDevices = N\<close>, and \<open>N + 1\<close> Activate requests for its key, each served before the
  expiry, for devices of which none is \<open>===\<close> to a later one. Whatever the order of the
  devices, the first \<open>N\<close> requests succeed and the last one fails with DeviceLimitExceeded
  carrying \<open>maxDevices\<close>; the record then holds one activation per admitted device, in the
  order of arrival. The \<open>activatedAt\<close> and the \<open>lastSeen\<close> of an entry are the second and the
  third reading that its request takes of the clock, after the one for the expiry test:
  they are the same time when the clock has not moved between the two.
\<close>

theorem device_limit:
  assumes "truthy key"
    and "find (hasKey key) (readData file) = Some c"
    and "status c \<noteq> StBanned" and "activations c = []"
    and "maxDevices c = JNum (of_nat N)"
    and "length xs = N"
    and "\<forall>x\<in>set (xs @ [y]). truthy (snd x) \<and> fst x 0 < expiresAt c"
    and "distinct_ids (map snd (xs @ [y]))"
  shows "serve h (activation_requests key (xs @ [y])) file
         = (map (\<lambda>x. Activated (expiresAt c) (stored (snd x)) (name c)) xs
              @ [DeviceLimitExceeded (JNum (of_nat N))],
            (if xs = [] then file
             else Parsed (update_first (hasKey key)
                    (\<lambda>_. c\<lparr>activations := map admitted xs, status := StActive\<rparr>)
                    (readData file))))
       \<and> (\<forall>x\<in>set xs. deviceId (admitted x) = stored (snd x)
             \<and> activatedAt (admitted x) = fst x 1 \<and> lastSeen (admitted x) = fst x 2
             \<and> (fst x 1 = fst x 2 \<longrightarrow> activatedAt (admitted x) = lastSeen (admitted x)))"
  using serve_limit [OF assms] by (simp add: admitted_def)

theorem device_limit_witness:
  "serve utcHost
     (activation_requests acmeKey [(\<lambda>k. 1000, JStr ''dev1''), (\<lambda>k. 2000, JStr ''dev2'')])
     (Parsed [acme])
   = ([Activated 5000 (JStr ''dev1'') (JStr ''A''), DeviceLimitExceeded (JNum 1)],
      Parsed [acme\<lparr>activations :=
                 [\<lparr>deviceId = JStr ''dev1'', activatedAt = 1000, lastSeen = 1000\<rparr>]\<rparr>])"
  using device_limit [of acmeKey "Parsed [acme]" acme 1 "[(\<lambda>k. 1000, JStr ''dev1'')]"
      "(\<lambda>k. 2000, JStr ''dev2'')" utcHost]
  by (simp add: acme_def acmeKey_def hasKey_def admitted_def)

text \<open>
  C1 as stated fails in \<open>activatedAt = lastSeen = now\<close>: the entry takes its two times from
  two readings of the clock, and when the clock moves between them, they differ.
\<close>

theorem activation_times_differ:
  "activate utcHost (\<lambda>k. 1000 + int k) (Some acmeKey) (Some (JStr ''dev1'')) (Parsed [acme])
   = (Activated 5000 (JStr ''dev1'') (JStr ''A''),
      Parsed [acme\<lparr>activations :=
                 [\<lparr>deviceId = JStr ''dev1'', activatedAt = 1001, lastSeen = 1002\<rparr>]\<rparr>])
   \<and> activatedAt \<lparr>deviceId = JStr ''dev1'', activatedAt = 1001, lastSeen = 1002\<rparr>
     \<noteq> lastSeen \<lparr>deviceId = JStr ''dev1'', activatedAt = 1001, lastSeen = 1002\<rparr>"
  by code_simp

section \<open>Requests in flight together\<close>

text \<open>
  C9. No handler yields between reading the data file and writing it (there is no
  \<open>await\<close> and no callback in them), so Activate requests that are in flight together are
  served one after another, in some order. Take a licence that is not banned, has no
  activation yet and has \<open>maxDevices = N\<close>, and \<open>N + K\<close> Activate requests for its key and
  for distinct devices, each served before the expiry. In whatever order they are served,
  exactly \<open>N\<close> are admitted, the first \<open>N\<close> served, and the \<open>K\<close> others are refused with
  DeviceLimitExceeded; the record is left with \<open>N\<close> activations.
\<close>

theorem concurrent_activations:
  assumes "truthy key"
    and "find (hasKey key) (readData file) = Some c"
    and "status c \<noteq> StBanned" and "activations c = []"
    and "maxDevices c = JNum (of_nat N)"
    and "length zs = N + K"
    and "\<forall>x\<in>set zs. truthy (snd x) \<and> fst x 0 < expiresAt c"
    and "distinct_ids (map snd zs)"
  shows "\<exists>c'. serve h (activation_requests key zs) file
           = (map (\<lambda>x. Activated (expiresAt c) (stored (snd x)) (name c)) (take N zs)
                @ replicate K (DeviceLimitExceeded (JNum (of_nat N))),
              (if N = 0 then file
               else Parsed (update_first (hasKey key) (\<lambda>_. c') (readData file))))
         \<and> c' = c\<lparr>activations := map admitted (take N zs), status := StActive\<rparr>
         \<and> length (activations c') = N"
proof -
  have split: "take N zs @ drop N zs = zs" and l: "length (take N zs) = N"
    and r: "length (drop N zs) = K"
    using assms(6) by simp_all
  have "serve h (activation_requests key (take N zs @ drop N zs)) file
         = (map (\<lambda>x. Activated (expiresAt c) (stored (snd x)) (name c)) (take N zs)
              @ replicate (length (drop N zs)) (DeviceLimitExceeded (JNum (of_nat N))),
            (if take N zs = [] then file
             else Parsed (update_first (hasKey key)
                    (\<lambda>_. c\<lparr>activations := map admitted (take N zs), status := StActive\<rparr>)
                    (readData file))))"
    using assms(7,8) by (intro serve_limit [OF assms(1-5) l]) (simp_all only: split)
  moreover have "(take N zs = []) = (N = 0)"
    using l by auto
  ultimately show ?thesis
    using l by (simp only: split r) simp
qed

theorem concurrent_activations_witness:
  "serve utcHost
     (activation_requests acmeKey
        [(\<lambda>k. 1000, JStr ''dev3''), (\<lambda>k. 1000, JStr ''dev1''), (\<lambda>k. 1000, JStr ''dev2'')])
     (Parsed [acme])
   = ([Activated 5000 (JStr ''dev3'') (JStr ''A''), DeviceLimitExceeded (JNum 1),
       DeviceLimitExceeded (JNum 1)],
      Parsed [acme\<lparr>activations :=
                 [\<lparr>deviceId = JStr ''dev3'', activatedAt = 1000, lastSeen = 1000\<rparr>]\<rparr>])"
  using concurrent_activations [of acmeKey "Parsed [acme]" acme 1
      "[(\<lambda>k. 1000, JStr ''dev3''), (\<lambda>k. 1000, JStr ''dev1''), (\<lambda>k. 1000, JStr ''dev2'')]"
      2 utcHost]
  by (simp add: acme_def acmeKey_def hasKey_def admitted_def numeral_2_eq_2)

section \<open>Activating a device again\<close>

lemma find_snoc:
  "find p xs = None \<Longrightarrow> p a \<Longrightarrow> find p (xs @ [a]) = Some a"
  by (induction xs) auto

lemma hasDevice_lastSeen [simp]:
  "hasDevice d (a\<lparr>lastSeen := t\<rparr>) = hasDevice d a"
  by (simp add: hasDevice_def)

lemma touch_deviceId:
  "map deviceId (update_first (hasDevice d) (\<lambda>a. a\<lparr>lastSeen := t\<rparr>) xs) = map deviceId xs"
  by (induction xs) auto

lemma touch_activatedAt:
  "map activatedAt (update_first (hasDevice d) (\<lambda>a. a\<lparr>lastSeen := t\<rparr>) xs) = map activatedAt xs"
  by (induction xs) auto

lemma touch_entries:
  "filter (hasDevice d) (update_first (hasDevice d) (\<lambda>a. a\<lparr>lastSeen := t\<rparr>) xs)
   = update_first (hasDevice d) (\<lambda>a. a\<lparr>lastSeen := t\<rparr>) (filter (hasDevice d) xs)"
  by (induction xs) auto

lemma find_None_filter:
  "find p xs = None \<Longrightarrow> filter p xs = []"
  by (induction xs) (auto split: if_splits)

text \<open>What a successful Activate has made of the customer.\<close>

lemma find_holds:
  "find p xs = Some a \<Longrightarrow> p a"
  by (auto simp: find_Some_iff)

lemma activated_customer:
  assumes "activate_customer h clk d c = (Activated e d' n, w)" and "strict_eq (stored d) d"
  shows "\<exists>c1 a. w = Some c1 \<and> status c1 = StActive
           \<and> expiresAt c1 = expiresAt c \<and> name c1 = name c \<and> licenseKey c1 = licenseKey c
           \<and> find (hasDevice d) (activations c1) = Some a
           \<and> (find (hasDevice d) (activations c) = None
                 \<longrightarrow> length (filter (hasDevice d) (activations c1)) = 1)"
proof (cases "find (hasDevice d) (activations c)")
  case None
  let ?a = "\<lparr>deviceId = stored d, activatedAt = clk 1, lastSeen = clk 2\<rparr>"
  let ?c1 = "c\<lparr>activations := activations c @ [?a], status := StActive\<rparr>"
  from assms(1) None have w: "w = Some ?c1"
    by (auto simp: activate_customer_def split: if_splits option.splits)
  have "hasDevice d ?a"
    using assms(2) by (simp add: hasDevice_def)
  with None have "find (hasDevice d) (activations ?c1) = Some ?a"
    and "length (filter (hasDevice d) (activations ?c1)) = 1"
    by (simp_all add: find_snoc find_None_filter)
  with w show ?thesis
    by (intro exI [of _ ?c1] exI [of _ ?a]) simp
next
  case (Some a)
  let ?c1 = "c\<lparr>activations :=
                 update_first (hasDevice d) (\<lambda>a. a\<lparr>lastSeen := clk 1\<rparr>) (activations c),
               status := StActive\<rparr>"
  from assms(1) Some have w: "w = Some ?c1"
    by (auto simp: activate_customer_def split: if_splits)
  have "hasDevice d a"
    using Some by (rule find_holds)
  then have "find (hasDevice d) (activations ?c1) = Some (a\<lparr>lastSeen := clk 1\<rparr>)"
    using find_update_first [OF Some, of "\<lambda>a. a\<lparr>lastSeen := clk 1\<rparr>"]
    by simp
  with w Some show ?thesis
    by (intro exI [of _ ?c1] exI [of _ "a\<lparr>lastSeen := clk 1\<rparr>"]) simp
qed

lemma sample_activation:
  "activate utcHost (\<lambda>k. 1000) (Some acmeKey) (Some (JStr ''dev1'')) (Parsed [acme])
   = (Activated 5000 (JStr ''dev1'') (JStr ''A''),
      Parsed [acme\<lparr>activations :=
                 [\<lparr>deviceId = JStr ''dev1'', activatedAt = 1000, lastSeen = 1000\<rparr>]\<rparr>])"
  by code_simp

lemma sample_reactivation:
  "activate utcHost (\<lambda>k. 2000) (Some acmeKey) (Some (JStr ''dev1''))
     (Parsed [acme\<lparr>activations :=
                [\<lparr>deviceId = JStr ''dev1'', activatedAt = 1000, lastSeen = 1000\<rparr>]\<rparr>])
   = (Activated 5000 (JStr ''dev1'') (JStr ''A''),
      Parsed [acme\<lparr>activations :=
                 [\<lparr>deviceId = JStr ''dev1'', activatedAt = 1000, lastSeen = 2000\<rparr>]\<rparr>])"
  by code_simp

text \<open>
  C3, as the code has it. Let the device id be a text, a finite number or a boolean (a
  value that is \<open>===\<close> to what the data file holds of it). When an Activate for a key and
  that device has
  succeeded, a second Activate for the same pair before the expiry succeeds too; it
  changes nothing in the activations but the \<open>lastSeen\<close> of the first entry of that
  device: their number, their devices and their \<open>activatedAt\<close> stay, and a device that
  had no entry before the first request has exactly one after the second.
\<close>

theorem reactivation_touches_lastSeen:
  assumes "truthy key" and "truthy d" and "strict_eq (stored d) d"
    and "find (hasKey key) (readData file) = Some c"
    and "activate h clk (Some key) (Some d) file = (Activated e d' n, file1)"
    and "\<not> isExpired (expiresAt c) (clk' 0)"
  shows "\<exists>c1 c2 file2.
           find (hasKey key) (readData file1) = Some c1
         \<and> activate h clk' (Some key) (Some d) file1
             = (Activated (expiresAt c) (stored d) (name c), file2)
         \<and> find (hasKey key) (readData file2) = Some c2
         \<and> activations c2
             = update_first (hasDevice d) (\<lambda>a. a\<lparr>lastSeen := clk' 1\<rparr>) (activations c1)
         \<and> length (activations c2) = length (activations c1)
         \<and> map deviceId (activations c2) = map deviceId (activations c1)
         \<and> map activatedAt (activations c2) = map activatedAt (activations c1)
         \<and> length (filter (hasDevice d) (activations c2))
             = length (filter (hasDevice d) (activations c1))
         \<and> (find (hasDevice d) (activations c) = None \<longrightarrow>
               length (filter (hasDevice d) (activations c2)) = 1)"
proof -
  from assms(1,2,5)
  have "on_found (hasKey key) InvalidLicense (activate_customer h clk d) file
        = (Activated e d' n, file1)"
    by (simp add: activate_def)
  then obtain w where w: "activate_customer h clk d c = (Activated e d' n, w)"
    and f1: "file1 = (case w of None \<Rightarrow> file
                      | Some c' \<Rightarrow> Parsed (update_first (hasKey key) (\<lambda>_. c') (readData file)))"
    using assms(4) by (cases rule: on_found_cases) auto
  from w assms(3) obtain c1 a where c1: "w = Some c1" "status c1 = StActive"
    "expiresAt c1 = expiresAt c" "name c1 = name c" "licenseKey c1 = licenseKey c"
    "find (hasDevice d) (activations c1) = Some a"
    "find (hasDevice d) (activations c) = None
       \<longrightarrow> length (filter (hasDevice d) (activations c1)) = 1"
    using activated_customer by blast
  have k1: "hasKey key c1"
    using find_hasKey [OF assms(4)] c1(5) by simp
  have found1: "find (hasKey key) (readData file1) = Some c1"
    using find_update_first [OF assms(4), of "\<lambda>_. c1"] k1 f1 c1(1) by simp
  let ?c2 = "c1\<lparr>activations :=
                  update_first (hasDevice d) (\<lambda>a. a\<lparr>lastSeen := clk' 1\<rparr>) (activations c1),
                status := StActive\<rparr>"
  let ?f2 = "Parsed (update_first (hasKey key) (\<lambda>_. ?c2) (readData file1))"
  have second: "activate h clk' (Some key) (Some d) file1
                = (Activated (expiresAt c) (stored d) (name c), ?f2)"
    using activate_known_device [OF assms(1,2) found1 _ _ c1(6), of clk' h] c1(2,3,4) assms(6)
    by simp
  have k2: "hasKey key ?c2"
    using find_hasKey [OF found1] by simp
  have found2: "find (hasKey key) (readData ?f2) = Some ?c2"
    using find_update_first [OF found1, of "\<lambda>_. ?c2"] k2 by simp
  have e1: "length (filter (hasDevice d) (activations ?c2))
            = length (filter (hasDevice d) (activations c1))"
    by (simp add: touch_entries)
  have "find (hasDevice d) (activations c) = None \<longrightarrow>
          length (filter (hasDevice d) (activations ?c2)) = 1"
    using c1(7) e1 by simp
  with found1 second found2 e1 show ?thesis
    by (intro exI [of _ c1] exI [of _ ?c2] exI [of _ ?f2])
      (simp add: touch_deviceId touch_activatedAt)
qed


theorem reactivation_touches_lastSeen_witness:
  "activate utcHost (\<lambda>k. 2000) (Some acmeKey) (Some (JStr ''dev1''))
     (Parsed [acme\<lparr>activations :=
                [\<lparr>deviceId = JStr ''dev1'', activatedAt = 1000, lastSeen = 1000\<rparr>]\<rparr>])
   = (Activated 5000 (JStr ''dev1'') (JStr ''A''),
      Parsed [acme\<lparr>activations :=
                 [\<lparr>deviceId = JStr ''dev1'', activatedAt = 1000, lastSeen = 2000\<rparr>]\<rparr>])"
proof -
  have "truthy acmeKey" and "truthy (JStr ''dev1'')"
    and "strict_eq (stored (JStr ''dev1'')) (JStr ''dev1'')"
    and "find (hasKey acmeKey) (readData (Parsed [acme])) = Some acme"
    and "\<not> isExpired (expiresAt acme) 2000"
    by (simp_all add: acmeKey_def acme_def hasKey_def isExpired_def)
  note again = reactivation_touches_lastSeen [where clk' = "\<lambda>k. 2000",
      OF this(1-4) sample_activation this(5)]
  show ?thesis
    using again by (simp only: sample_reactivation)
qed

text \<open>
  C3 as stated fails: a device id that is an array (or an object) is never \<open>===\<close> to the
  stored one, and a device id that is a number beyond the range of binary64, such as
  \<open>1e400\<close>, is stored as \<open>null\<close>; in both cases the second Activate for the same pair
  appends a second entry and counts against \<open>maxDevices\<close> again.
\<close>

theorem array_device_is_activated_twice:
  "serve utcHost
     (activation_requests acmeKey
        [(\<lambda>k. 1000, JArr [JStr ''a'']), (\<lambda>k. 2000, JArr [JStr ''a''])])
     (Parsed [acme\<lparr>maxDevices := JNum 2\<rparr>])
   = ([Activated 5000 (JArr [JStr ''a'']) (JStr ''A''),
       Activated 5000 (JArr [JStr ''a'']) (JStr ''A'')],
      Parsed [acme\<lparr>maxDevices := JNum 2, activations :=
                 [\<lparr>deviceId = JArr [JStr ''a''], activatedAt = 1000, lastSeen = 1000\<rparr>,
                  \<lparr>deviceId = JArr [JStr ''a''], activatedAt = 2000, lastSeen = 2000\<rparr>]\<rparr>])
   \<and> serve utcHost
     (activation_requests acmeKey [(\<lambda>k. 1000, JNum PInf), (\<lambda>k. 2000, JNum PInf)])
     (Parsed [acme\<lparr>maxDevices := JNum 2\<rparr>])
   = ([Activated 5000 JNull (JStr ''A''), Activated 5000 JNull (JStr ''A'')],
      Parsed [acme\<lparr>maxDevices := JNum 2, activations :=
                 [\<lparr>deviceId = JNull, activatedAt = 1000, lastSeen = 1000\<rparr>,
                  \<lparr>deviceId = JNull, activatedAt = 2000, lastSeen = 2000\<rparr>]\<rparr>])"
  by code_simp

section \<open>Calendar arithmetic\<close>

lemma div_step:
  fixes x k :: int
  assumes "0 < k"
  shows "(x + 1) div k = x div k + (if (x + 1) mod k = 0 then 1 else 0)"
proof -
  define r where "r = x mod k"
  have r: "0 \<le> r" "r < k"
    using assms by (simp_all add: r_def)
  have x: "x + 1 = (r + 1) + (x div k) * k"
    by (simp add: r_def)
  have d: "(x + 1) div k = x div k + (r + 1) div k"
    using assms by (simp only: x div_mult_self1)
  have m: "(x + 1) mod k = (r + 1) mod k"
    by (simp only: x mod_mult_self1)
  show ?thesis
  proof (cases "r + 1 = k")
    case True
    with d m assms show ?thesis by simp
  next
    case False
    with r have "r + 1 < k" by simp
    with r have "(r + 1) div k = 0" "(r + 1) mod k = r + 1"
      by simp_all
    with d m r show ?thesis by simp
  qed
qed

lemma shift_mod:
  fixes y :: int
  shows "(y - 1968) mod 4 = y mod 4" and "(y - 1900) mod 100 = y mod 100"
    and "(y - 1600) mod 400 = y mod 400"
proof -
  have "(y - 1968) mod 4 = (y + (- 492) * 4) mod 4" by simp
  also have "\<dots> = y mod 4" by (rule mod_mult_self1)
  finally show "(y - 1968) mod 4 = y mod 4" .
  have "(y - 1900) mod 100 = (y + (- 19) * 100) mod 100" by simp
  also have "\<dots> = y mod 100" by (rule mod_mult_self1)
  finally show "(y - 1900) mod 100 = y mod 100" .
  have "(y - 1600) mod 400 = (y + (- 4) * 400) mod 400" by simp
  also have "\<dots> = y mod 400" by (rule mod_mult_self1)
  finally show "(y - 1600) mod 400 = y mod 400" .
qed

lemma century_leap:
  fixes y :: int
  shows "y mod 100 = 0 \<Longrightarrow> y mod 4 = 0" and "y mod 400 = 0 \<Longrightarrow> y mod 100 = 0"
proof -
  assume "y mod 100 = 0"
  then have "100 dvd y" by (simp add: mod_eq_0_iff_dvd)
  moreover have "(4::int) dvd 100" by simp
  ultimately have "4 dvd y" by (rule dvd_trans [rotated])
  then show "y mod 4 = 0" by (simp add: mod_eq_0_iff_dvd)
next
  assume "y mod 400 = 0"
  then have "400 dvd y" by (simp add: mod_eq_0_iff_dvd)
  moreover have "(100::int) dvd 400" by simp
  ultimately have "100 dvd y" by (rule dvd_trans [rotated])
  then show "y mod 100 = 0" by (simp add: mod_eq_0_iff_dvd)
qed

lemma DayFromYear_next: "DayFromYear (y + 1) = DayFromYear y + DaysInYear y"
proof -
  have a: "(y - 1968) div 4 = (y - 1969) div 4 + (if y mod 4 = 0 then 1 else 0)"
    using div_step [of 4 "y - 1969"] by (simp add: shift_mod)
  have b: "(y - 1900) div 100 = (y - 1901) div 100 + (if y mod 100 = 0 then 1 else 0)"
    using div_step [of 100 "y - 1901"] by (simp add: shift_mod)
  have c: "(y - 1600) div 400 = (y - 1601) div 400 + (if y mod 400 = 0 then 1 else 0)"
    using div_step [of 400 "y - 1601"] by (simp add: shift_mod)
  have "DayFromYear (y + 1)
        = 365 * (y - 1969) + (y - 1968) div 4 - (y - 1900) div 100 + (y - 1600) div 400"
    by (simp add: DayFromYear_def)
  also have "\<dots> = DayFromYear y + 365 + (if y mod 4 = 0 then 1 else 0)
                 - (if y mod 100 = 0 then 1 else 0) + (if y mod 400 = 0 then 1 else 0)"
    by (simp only: a b c DayFromYear_def) simp
  also have "\<dots> = DayFromYear y + DaysInYear y"
    using century_leap [of y] by (auto simp: DaysInYear_def)
  finally show ?thesis .
qed


lemma DaysInYear_bounds: "365 \<le> DaysInYear y" "DaysInYear y \<le> 366"
  by (simp_all add: DaysInYear_def)

lemma DayFromYear_add:
  "DayFromYear y + 365 * int n \<le> DayFromYear (y + int n)"
  "DayFromYear (y + int n) \<le> DayFromYear y + 366 * int n"
proof (induction n)
  case 0
  case 1 show ?case by simp
  case 2 show ?case by simp
next
  case (Suc n)
  have s: "DayFromYear (y + int (Suc n)) = DayFromYear (y + int n) + DaysInYear (y + int n)"
    using DayFromYear_next [of "y + int n"] by (simp add: ac_simps)
  case 1 show ?case
    using Suc(1) DaysInYear_bounds(1) [of "y + int n"] by (simp only: s) simp
  case 2 show ?case
    using Suc(2) DaysInYear_bounds(2) [of "y + int n"] by (simp only: s) simp
qed

lemma DayFromYear_mono: "y \<le> y' \<Longrightarrow> DayFromYear y \<le> DayFromYear y'"
  using DayFromYear_add(1) [of y "nat (y' - y)"] by simp

lemma DayFromYear_1970: "DayFromYear 1970 = 0"
  by (simp add: DayFromYear_def)

lemma year_search_bounds:
  "DayFromYear y \<le> dn \<Longrightarrow>
     DayFromYear (year_search dn y) \<le> dn \<and> dn < DayFromYear (year_search dn y + 1)"
proof (induction dn y rule: year_search.induct)
  case (1 dn y)
  show ?case
  proof (cases "DayFromYear (y + 1) \<le> dn")
    case True
    then have "year_search dn y = year_search dn (y + 1)"
      by (simp add: year_search.simps [of dn y])
    with 1(1) [OF True True] show ?thesis by simp
  next
    case False
    then have "year_search dn y = y"
      by (simp add: year_search.simps [of dn y])
    with False 1(2) show ?thesis by simp
  qed
qed

lemma estimate_not_after:
  "DayFromYear (1970 + (if 0 \<le> dn then dn div 366 else dn div 365)) \<le> dn"
proof (cases "0 \<le> dn")
  case True
  define n where "n = nat (dn div 366)"
  have k: "dn div 366 = int n"
    using True by (simp add: n_def pos_imp_zdiv_nonneg_iff)
  have "DayFromYear (1970 + int n) \<le> 366 * int n"
    using DayFromYear_add(2) [of 1970 n] by (simp add: DayFromYear_1970)
  moreover have "366 * (dn div 366) + dn mod 366 = dn"
    by simp
  moreover have "0 \<le> dn mod 366"
    by simp
  ultimately show ?thesis
    using True k by simp
next
  case False
  define n where "n = nat (- (dn div 365))"
  have "dn div 365 < 0"
    using False by (simp add: div_neg_pos_less0)
  then have k: "dn div 365 = - int n"
    by (simp add: n_def)
  have "DayFromYear (1970 - int n) + 365 * int n \<le> DayFromYear (1970 - int n + int n)"
    by (rule DayFromYear_add(1))
  then have "DayFromYear (1970 - int n) \<le> - (365 * int n)"
    by (simp add: DayFromYear_1970)
  moreover have "365 * (dn div 365) + dn mod 365 = dn"
    by simp
  moreover have "0 \<le> dn mod 365"
    by simp
  ultimately show ?thesis
    using False k by simp
qed

lemma YearFromDay_bounds:
  "DayFromYear (YearFromDay dn) \<le> dn" "dn < DayFromYear (YearFromDay dn + 1)"
  using year_search_bounds [OF estimate_not_after, of dn]
  by (simp_all add: YearFromDay_def)

lemma YearFromDay_unique:
  assumes "DayFromYear y \<le> dn" and "dn < DayFromYear (y + 1)"
  shows "YearFromDay dn = y"
proof (rule ccontr)
  assume "YearFromDay dn \<noteq> y"
  then consider "YearFromDay dn + 1 \<le> y" | "y + 1 \<le> YearFromDay dn"
    by linarith
  then show False
  proof cases
    case 1
    from DayFromYear_mono [OF this] assms(1) YearFromDay_bounds(2) [of dn]
    show False by simp
  next
    case 2
    from DayFromYear_mono [OF this] assms(2) YearFromDay_bounds(1) [of dn]
    show False by simp
  qed
qed


lemma month_cases:
  fixes m :: int
  assumes "0 \<le> m" and "m \<le> 11"
  obtains "m = 0" | "m = 1" | "m = 2" | "m = 3" | "m = 4" | "m = 5" | "m = 6" | "m = 7"
    | "m = 8" | "m = 9" | "m = 10" | "m = 11"
proof -
  from assms have "m = 0 \<or> m = 1 \<or> m = 2 \<or> m = 3 \<or> m = 4 \<or> m = 5 \<or> m = 6 \<or> m = 7
      \<or> m = 8 \<or> m = 9 \<or> m = 10 \<or> m = 11"
    by arith
  with that show thesis
    by blast
qed

lemma monthStart_bounds:
  assumes "lp = 0 \<or> lp = 1"
  shows "0 \<le> monthStart m lp" and "monthStart m lp \<le> 334 + lp"
  using assms by (auto simp: monthStart_def)

lemma monthStart_next:
  assumes "0 \<le> m" and "m < 11"
  shows "monthStart (m + 1) lp = monthStart m lp + (if m = 1 then 28 + lp
            else if m = 3 \<or> m = 5 \<or> m = 8 \<or> m = 10 then 30 else 31)"
proof -
  from assms have "0 \<le> m" "m \<le> 11" by simp_all
  then show ?thesis
    using assms(2) by (cases rule: month_cases) (simp_all add: monthStart_def)
qed

lemma monthStart_mono:
  assumes "lp = 0 \<or> lp = 1" and "0 \<le> m" and "m \<le> m'" and "m' \<le> 11"
  shows "monthStart m lp \<le> monthStart m' lp"
proof -
  have "monthStart m lp \<le> monthStart (m + int n) lp" if "m + int n \<le> 11" for n
    using that
  proof (induction n)
    case 0
    then show ?case by simp
  next
    case (Suc n)
    then have "monthStart m lp \<le> monthStart (m + int n) lp" by simp
    moreover have "monthStart (m + int n) lp \<le> monthStart (m + int n + 1) lp"
      using monthStart_next [of "m + int n" lp] assms(1,2) Suc.prems by auto
    ultimately show ?case by (simp add: ac_simps)
  qed
  from this [of "nat (m' - m)"] assms(3,4) show ?thesis by simp
qed

lemma month_of_day:
  assumes "lp = 0 \<or> lp = 1" and "0 \<le> m" and "m \<le> 11"
    and "1 \<le> d"
    and "d \<le> (if m = 1 then 28 + lp else if m = 3 \<or> m = 5 \<or> m = 8 \<or> m = 10 then 30 else 31)"
  shows "monthOfDay (monthStart m lp + d - 1) lp = m"
    and "0 \<le> monthStart m lp + d - 1" and "monthStart m lp + d - 1 < 365 + lp"
  using assms(2,3)
proof (cases rule: month_cases)
qed (use assms(1,4,5) in \<open>auto simp: monthStart_def monthOfDay_def\<close>)

lemma day_in_month:
  assumes "lp = 0 \<or> lp = 1" and "0 \<le> dw" and "dw < 365 + lp"
  shows "0 \<le> monthOfDay dw lp" and "monthOfDay dw lp \<le> 11"
    and "1 \<le> dw - monthStart (monthOfDay dw lp) lp + 1"
    and "dw - monthStart (monthOfDay dw lp) lp + 1
         \<le> (if monthOfDay dw lp = 1 then 28 + lp
            else if monthOfDay dw lp = 3 \<or> monthOfDay dw lp = 5 \<or> monthOfDay dw lp = 8
                    \<or> monthOfDay dw lp = 10 then 30 else 31)"
  using assms by (auto simp: monthOfDay_def monthStart_def)



lemma msPerDay_pos: "0 < msPerDay"
  by (simp add: msPerDay_def)

lemma TimeWithinDay_range: "0 \<le> TimeWithinDay t" "TimeWithinDay t < msPerDay"
  using msPerDay_pos by (simp_all add: TimeWithinDay_def)

lemma time_split: "Day t * msPerDay + TimeWithinDay t = t"
  by (simp add: Day_def TimeWithinDay_def)

lemma Day_MakeDate:
  assumes "0 \<le> tw" and "tw < msPerDay"
  shows "Day (MakeDate n tw) = n" and "TimeWithinDay (MakeDate n tw) = tw"
proof -
  have "(tw + n * msPerDay) div msPerDay = n + tw div msPerDay"
    using msPerDay_pos by (simp only: div_mult_self1)
  with assms show "Day (MakeDate n tw) = n"
    by (simp add: Day_def MakeDate_def ac_simps)
  have "(tw + n * msPerDay) mod msPerDay = tw mod msPerDay"
    by (simp only: mod_mult_self1)
  with assms show "TimeWithinDay (MakeDate n tw) = tw"
    by (simp add: TimeWithinDay_def MakeDate_def ac_simps)
qed

lemma DaysInYear_leap: "DaysInYear y = 365 + (if DaysInYear y = 366 then 1 else 0)"
  by (simp add: DaysInYear_def)

lemma local_date:
  "Day t = DayFromYear (YearFromTime t) + monthStart (MonthFromTime t) (InLeapYear t)
           + DateFromTime t - 1"
  by (simp add: DateFromTime_def DayWithinYear_def)

lemma MonthFromTime_range: "0 \<le> MonthFromTime t" "MonthFromTime t \<le> 11"
  by (simp_all add: MonthFromTime_def monthOfDay_def)

lemma DayWithinYear_range:
  "0 \<le> DayWithinYear t" "DayWithinYear t < 365 + InLeapYear t"
proof -
  show "0 \<le> DayWithinYear t"
    using YearFromDay_bounds(1) [of "Day t"] by (simp add: DayWithinYear_def YearFromTime_def)
  have "Day t < DayFromYear (YearFromTime t) + DaysInYear (YearFromTime t)"
    using YearFromDay_bounds(2) [of "Day t"] by (simp add: YearFromTime_def DayFromYear_next)
  then show "DayWithinYear t < 365 + InLeapYear t"
    using DaysInYear_leap [of "YearFromTime t"] by (simp add: DayWithinYear_def InLeapYear_def)
qed

lemma DateFromTime_range: "1 \<le> DateFromTime t" "DateFromTime t \<le> 31"
proof -
  have lp: "InLeapYear t = 0 \<or> InLeapYear t = 1"
    by (simp add: InLeapYear_def)
  from day_in_month(3) [OF lp DayWithinYear_range]
  show "1 \<le> DateFromTime t"
    by (simp add: DateFromTime_def MonthFromTime_def)
  from day_in_month(4) [OF lp DayWithinYear_range] lp
  show "DateFromTime t \<le> 31"
    by (auto simp: DateFromTime_def MonthFromTime_def split: if_splits)
qed

lemma civil_roundtrip:
  assumes "0 \<le> m" and "m \<le> 11" and "1 \<le> d" and "d \<le> DaysInMonth y m"
    and "0 \<le> tw" and "tw < msPerDay"
  defines "T \<equiv> MakeDate (DayFromYear y + monthStart m (if DaysInYear y = 366 then 1 else 0)
                              + d - 1) tw"
  shows "YearFromTime T = y" and "MonthFromTime T = m" and "DateFromTime T = d"
    and "TimeWithinDay T = tw"
proof -
  define lp :: int where "lp = (if DaysInYear y = 366 then 1 else 0)"
  have lp: "lp = 0 \<or> lp = 1"
    by (simp add: lp_def)
  have dim: "d \<le> (if m = 1 then 28 + lp
                    else if m = 3 \<or> m = 5 \<or> m = 8 \<or> m = 10 then 30 else 31)"
    using assms(4) by (auto simp: DaysInMonth_def lp_def split: if_splits)
  note md = month_of_day [OF lp assms(1,2,3) dim]
  have day: "Day T = DayFromYear y + monthStart m lp + d - 1"
    and tw: "TimeWithinDay T = tw"
    using Day_MakeDate [OF assms(5,6)] by (simp_all add: T_def lp_def)
  have "DayFromYear y \<le> Day T" and "Day T < DayFromYear (y + 1)"
    using md(2,3) DaysInYear_leap [of y] by (simp_all add: day DayFromYear_next lp_def)
  then show y: "YearFromTime T = y"
    unfolding YearFromTime_def by (rule YearFromDay_unique)
  have dw: "DayWithinYear T = monthStart m lp + d - 1"
    by (simp add: DayWithinYear_def y day)
  have il: "InLeapYear T = lp"
    by (simp add: InLeapYear_def y lp_def)
  show mo: "MonthFromTime T = m"
    using md(1) by (simp add: MonthFromTime_def dw il)
  show "DateFromTime T = d"
    by (simp add: DateFromTime_def mo dw il)
  show "TimeWithinDay T = tw"
    by (rule tw)
qed

lemma first_of_month_mono:
  assumes "0 \<le> m" and "m \<le> 11" and "m \<le> M"
  shows "DayFromYear y + monthStart m (if DaysInYear y = 366 then 1 else 0)
         \<le> DayFromYear (y + M div 12)
            + monthStart (M mod 12) (if DaysInYear (y + M div 12) = 366 then 1 else 0)"
proof (cases "M \<le> 11")
  case True
  with assms have "M div 12 = 0" and "M mod 12 = M"
    by simp_all
  moreover have "monthStart m (if DaysInYear y = 366 then 1 else 0)
                 \<le> monthStart M (if DaysInYear y = 366 then 1 else 0)"
    using assms(1,3) True by (intro monthStart_mono) simp_all
  ultimately show ?thesis by simp
next
  case False
  then have "1 \<le> M div 12"
    by (simp add: pos_imp_zdiv_pos_iff)
  then have "DayFromYear (y + 1) \<le> DayFromYear (y + M div 12)"
    by (intro DayFromYear_mono) simp
  moreover have "monthStart m (if DaysInYear y = 366 then 1 else 0) \<le> DaysInYear y"
  proof (cases "DaysInYear y = 366")
    case True
    then show ?thesis
      using monthStart_bounds(2) [of 1 m] by simp
  next
    case False
    then show ?thesis
      using monthStart_bounds(2) [of 0 m] DaysInYear_bounds(1) [of y] by simp
  qed
  moreover have "0 \<le> monthStart (M mod 12) (if DaysInYear (y + M div 12) = 366 then 1 else 0)"
    by (intro monthStart_bounds(1)) simp
  ultimately show ?thesis
    by (simp add: DayFromYear_next)
qed

text \<open>The first day of a later month is at least 28 days after the first of the month.\<close>

lemma first_of_month_step:
  assumes "0 \<le> m" and "m \<le> 11" and "m + 1 \<le> M"
  shows "DayFromYear y + monthStart m (if DaysInYear y = 366 then 1 else 0) + 28
         \<le> DayFromYear (y + M div 12)
            + monthStart (M mod 12) (if DaysInYear (y + M div 12) = 366 then 1 else 0)"
proof (cases "m = 11")
  case False
  with assms(2) have m: "m < 11" and m1: "0 \<le> m + 1" "m + 1 \<le> 11"
    using assms(1) by simp_all
  have "monthStart m (if DaysInYear y = 366 then 1 else 0) + 28
        \<le> monthStart (m + 1) (if DaysInYear y = 366 then 1 else 0)"
    by (simp add: monthStart_next [OF assms(1) m])
  with first_of_month_mono [OF m1 assms(3), of y] show ?thesis
    by simp
next
  case True
  with assms(3) have "1 \<le> M div 12"
    by (simp add: pos_imp_zdiv_pos_iff)
  then have "DayFromYear (y + 1) \<le> DayFromYear (y + M div 12)"
    by (intro DayFromYear_mono) simp
  moreover have "monthStart m (if DaysInYear y = 366 then 1 else 0) + 28 \<le> DaysInYear y"
    using True DaysInYear_bounds(1) [of y] by (simp add: monthStart_def)
  moreover have "0 \<le> monthStart (M mod 12) (if DaysInYear (y + M div 12) = 366 then 1 else 0)"
    by (intro monthStart_bounds(1)) simp
  ultimately show ?thesis
    by (simp add: DayFromYear_next)
qed

lemma overflow_month:
  assumes "0 \<le> m" and "m \<le> 11" and "DaysInMonth y m < d" and "d \<le> 31"
  shows "m + 1 \<le> 11" and "d - DaysInMonth y m \<le> DaysInMonth y (m + 1)"
    and "monthStart (m + 1) (if DaysInYear y = 366 then 1 else 0)
         = monthStart m (if DaysInYear y = 366 then 1 else 0) + DaysInMonth y m"
proof -
  from assms(3,4) have m: "m = 1 \<or> m = 3 \<or> m = 5 \<or> m = 8 \<or> m = 10"
    by (auto simp: DaysInMonth_def split: if_splits)
  then show "m + 1 \<le> 11"
    by auto
  from m assms(4) show "d - DaysInMonth y m \<le> DaysInMonth y (m + 1)"
    by (auto simp: DaysInMonth_def)
  from m show "monthStart (m + 1) (if DaysInYear y = 366 then 1 else 0)
         = monthStart m (if DaysInYear y = 366 then 1 else 0) + DaysInMonth y m"
    by (auto simp: DaysInMonth_def monthStart_def)
qed

section \<open>Rounding\<close>

lemma expo_up_bounds:
  "2 powi e \<le> x \<Longrightarrow> 2 powi (expo_up x e) \<le> x \<and> x < 2 powi (expo_up x e + 1)"
proof (induction x e rule: expo_up.induct)
  case (1 x e)
  show ?case
  proof (cases "2 powi (e + 1) \<le> x")
    case True
    then have "expo_up x e = expo_up x (e + 1)"
      by (simp add: expo_up.simps [of x e])
    with 1(1) [OF True True] show ?thesis by simp
  next
    case False
    then have "expo_up x e = e"
      by (simp add: expo_up.simps [of x e])
    with False 1(2) show ?thesis by simp
  qed
qed

lemma expo_start:
  fixes x :: rat
  assumes "0 < x"
  shows "2 powi (- \<lceil>1 / x\<rceil>) \<le> x"
proof -
  define n where "n = nat \<lceil>1 / x\<rceil>"
  have "rat_of_int 0 < 1 / x"
    using assms by simp
  then have pos: "0 < \<lceil>1 / x\<rceil>"
    by (simp only: less_ceiling_iff)
  then have "0 \<le> \<lceil>1 / x\<rceil>"
    by linarith
  then have n: "\<lceil>1 / x\<rceil> = int n"
    by (simp only: n_def int_nat_eq if_True)
  have "1 / x \<le> of_int \<lceil>1 / x\<rceil>"
    by (rule le_of_int_ceiling)
  also have "\<dots> = of_nat n"
    by (simp add: n)
  also have "\<dots> < 2 ^ n"
    by (rule of_nat_less_two_power)
  finally have "1 / x < 2 ^ n" .
  then have "1 / 2 ^ n < x"
    using assms by (simp add: field_simps)
  moreover have "2 powi (- \<lceil>1 / x\<rceil>) = (1 :: rat) / 2 ^ n"
    by (simp add: n power_int_minus_divide)
  ultimately show ?thesis
    by simp
qed

text \<open>\<open>expo\<close> finds the exponent.\<close>

lemma expo_bounds:
  assumes "0 < x"
  shows "2 powi (expo x) \<le> x" and "x < 2 powi (expo x + 1)"
  using expo_up_bounds [OF expo_start [OF assms]] by (simp_all add: expo_def)

lemma nearest_even_ge_floor: "\<lfloor>x\<rfloor> \<le> nearest_even x"
  by (simp add: nearest_even_def Let_def)

text \<open>
  Rounding does not take a number below a whole number that it is not below: the whole
  numbers up to \<open>2 ^ 53\<close> are Numbers.
\<close>

lemma round64_ge_whole:
  assumes "of_int n \<le> x" and "1 \<le> n" and "n \<le> 2 ^ 53"
  shows "round64 x = PInf \<or> (\<exists>y. round64 x = Fin y \<and> of_int n \<le> y)"
proof -
  have "(1 :: rat) \<le> of_int n"
    using assms(2) by simp
  with assms(1) have x: "1 \<le> x"
    by simp
  define e where "e = expo \<bar>x\<bar>"
  have lo: "2 powi e \<le> x" and hi: "x < 2 powi (e + 1)"
    using expo_bounds [of x] x by (simp_all add: e_def)
  have e0: "0 \<le> e"
  proof (rule ccontr)
    assume "\<not> 0 \<le> e"
    then have "e + 1 \<le> 0"
      by simp
    then have "(2 :: rat) powi (e + 1) \<le> 2 powi 0"
      by (intro power_int_increasing) simp_all
    with hi x show False
      by simp
  qed
  define q :: rat where "q = 2 powi (e - 52)"
  have q: "0 < q"
    by (simp add: q_def)
  define k where "k = nearest_even (x / q)"
  define y where "y = of_int k * q"
  have r: "round64 x = (if 1024 \<le> e \<or> (e = 1023 \<and> \<bar>k\<bar> = 2 ^ 53)
                        then (if 0 < x then PInf else NInf) else Fin y)"
  proof -
    have m: "max (expo \<bar>x\<bar>) (- 1022) = e"
      using e0 by (simp add: e_def)
    have "x \<noteq> 0"
      using x by simp
    then show ?thesis
      by (simp only: round64_def Let_def m q_def [symmetric] k_def [symmetric]
          y_def [symmetric] if_False)
  qed
  have ny: "of_int n \<le> y"
  proof (cases "e \<le> 52")
    case True
    define j where "j = nat (52 - e)"
    have qj: "q = 1 / 2 ^ j"
      using True by (simp add: q_def j_def power_int_def inverse_eq_divide power_one_over)
    have "of_int (n * 2 ^ j) = rat_of_int n / q"
      by (simp add: qj)
    also have "\<dots> \<le> x / q"
      using assms(1) q by (simp add: divide_right_mono)
    finally have "n * 2 ^ j \<le> \<lfloor>x / q\<rfloor>"
      by (simp add: le_floor_iff)
    also have "\<dots> \<le> k"
      unfolding k_def by (rule nearest_even_ge_floor)
    finally have "rat_of_int (n * 2 ^ j) * q \<le> of_int k * q"
      using q by (simp only: mult_le_cancel_right_pos of_int_le_iff)
    then show ?thesis
      by (simp add: y_def qj)
  next
    case False
    then have e53: "53 \<le> e"
      by simp
    have "(2 :: rat) powi 52 = 2 powi e / q"
      by (simp add: q_def power_int_diff)
    also have "\<dots> \<le> x / q"
      using lo q by (simp add: divide_right_mono)
    finally have "rat_of_int (2 ^ 52) \<le> x / q"
      by simp
    then have "2 ^ 52 \<le> \<lfloor>x / q\<rfloor>"
      by (simp only: le_floor_iff)
    also have "\<dots> \<le> k"
      unfolding k_def by (rule nearest_even_ge_floor)
    finally have "rat_of_int (2 ^ 52) * q \<le> of_int k * q"
      using q by (simp only: mult_le_cancel_right_pos of_int_le_iff)
    moreover have "rat_of_int (2 ^ 52) * q = 2 powi e"
      by (simp add: q_def power_int_diff)
    moreover have "(2 :: rat) powi 53 \<le> 2 powi e"
      using e53 by (intro power_int_increasing) simp_all
    moreover have "rat_of_int n \<le> 2 powi 53"
      using assms(3) by (simp add: of_int_le_iff [of n "2 ^ 53", where ?'a = rat, simplified])
    ultimately show ?thesis
      by (simp add: y_def)
  qed
  have "0 < x"
    using x by simp
  with r ny show ?thesis
    by auto
qed

text \<open>Adding at least one month to a month gives a later month, or an infinity.\<close>

lemma month_sum:
  assumes "0 \<le> m" and "m \<le> 11" and "1 \<le> r"
  shows "num_add (of_int m) (Fin r) = PInf
       \<or> (\<exists>s. num_add (of_int m) (Fin r) = Fin s \<and> m + 1 \<le> trunc s)"
proof -
  have "rat_of_int (m + 1) \<le> of_int m + r"
    using assms(3) by simp
  moreover have "1 \<le> m + 1" and "m + 1 \<le> 2 ^ 53"
    using assms(1,2) by simp_all
  ultimately consider "round64 (of_int m + r) = PInf"
    | s where "round64 (of_int m + r) = Fin s" "rat_of_int (m + 1) \<le> s"
    using round64_ge_whole [of "m + 1" "of_int m + r"] by blast
  then show ?thesis
  proof cases
    case 1
    then show ?thesis by simp
  next
    case 2
    have "(0 :: rat) \<le> of_int (m + 1)"
      using assms(1) by simp
    with 2(2) have "0 \<le> s"
      by linarith
    moreover have "m + 1 \<le> \<lfloor>s\<rfloor>"
      using 2(2) by (simp only: le_floor_iff)
    ultimately have "m + 1 \<le> trunc s"
      by (simp add: trunc_def)
    with 2(1) show ?thesis by simp
  qed
qed

text \<open>The month count \<open>0.9999999999999999\<close> added to July is a whole month.\<close>

lemma month_sum_rounds:
  "num_add 6 (Fin (1 - 1 / 2 ^ 53)) = Fin 7"
  by code_simp

section \<open>Adding months\<close>

lemma addMonths_local:
  assumes "addMonths h t n = Inr u"
  shows "\<exists>s. num_add (of_int (MonthFromTime (LocalTime h t))) n = Fin s
       \<and> u = UTC h (MakeDate
           (DayFromYear (YearFromTime (LocalTime h t) + trunc s div 12)
            + monthStart (trunc s mod 12)
                (if DaysInYear (YearFromTime (LocalTime h t) + trunc s div 12) = 366
                 then 1 else 0)
            + DateFromTime (LocalTime h t) - 1)
           (TimeWithinDay (LocalTime h t)))"
  using assms
  by (cases "num_add (of_int (MonthFromTime (LocalTime h t))) n")
    (simp_all add: addMonths_def setMonth_def TimeClip_def Let_def split: if_splits)

text \<open>
  The month count \<open>0.9999999999999999\<close> takes 31 July 2024 to 31 August 2024, as the
  month count 1 does.
\<close>

lemma addMonths_rounds:
  "addMonths utcHost 1722384000000 (Fin (1 - 1 / 2 ^ 53)) = Inr 1725062400000
   \<and> addMonths utcHost 1722384000000 (Fin 1) = Inr 1725062400000"
  by code_simp

text \<open>
  With a month count of at least 1, on a host whose local time is within 14 days of UTC,
  \<open>addMonths\<close> returns a time that is not before the one it is given.
\<close>

lemma addMonths_not_earlier:
  assumes "\<forall>x b. \<bar>LocalTZA h x b\<bar> \<le> 14 * msPerDay" and "1 \<le> r"
    and "addMonths h t (Fin r) = Inr u"
  shows "t \<le> u"
proof -
  define L where "L = LocalTime h t"
  from addMonths_local [OF assms(3)] obtain s
    where s: "num_add (of_int (MonthFromTime L)) (Fin r) = Fin s"
      and u: "u = UTC h (MakeDate
           (DayFromYear (YearFromTime L + trunc s div 12)
            + monthStart (trunc s mod 12)
                (if DaysInYear (YearFromTime L + trunc s div 12) = 366 then 1 else 0)
            + DateFromTime L - 1)
           (TimeWithinDay L))"
    unfolding L_def by blast
  define n where "n = DayFromYear (YearFromTime L + trunc s div 12)
            + monthStart (trunc s mod 12)
                (if DaysInYear (YearFromTime L + trunc s div 12) = 366 then 1 else 0)
            + DateFromTime L - 1"
  have "MonthFromTime L + 1 \<le> trunc s"
    using month_sum [OF MonthFromTime_range assms(2), of L] s by simp
  from first_of_month_step [OF MonthFromTime_range this, of "YearFromTime L"]
  have "Day L + 28 \<le> n"
    by (simp add: local_date [of L] n_def InLeapYear_def)
  then have "(Day L + 28) * msPerDay \<le> n * msPerDay"
    using msPerDay_pos by (simp only: mult_le_cancel_right_pos)
  then have far: "L + 28 * msPerDay \<le> MakeDate n (TimeWithinDay L)"
    using time_split [of L] by (simp add: MakeDate_def algebra_simps)
  have "\<bar>LocalTZA h t True\<bar> \<le> 14 * msPerDay"
    and "\<bar>LocalTZA h (MakeDate n (TimeWithinDay L)) False\<bar> \<le> 14 * msPerDay"
    using assms(1) by blast+
  then have "- (14 * msPerDay) \<le> LocalTZA h t True"
    and "LocalTZA h (MakeDate n (TimeWithinDay L)) False \<le> 14 * msPerDay"
    by linarith+
  with far have "t \<le> MakeDate n (TimeWithinDay L)
                     - LocalTZA h (MakeDate n (TimeWithinDay L)) False"
    by (simp add: L_def LocalTime_def)
  then show ?thesis
    by (simp add: u UTC_def n_def)
qed

text \<open>
  C5, as the code has it. \<open>addMonths\<close> by a finite number of months adds that number
  to the local month, as Numbers are added, and truncates the sum to a whole number.
  What it returns is the
  instant, on the host's conversion from local time to UTC, of a local date and time with
  the time of day of the source, in the target month counted across years. When the day
  of the month \<open>d\<close> of the source exists in the target month, that is day \<open>d\<close> of the
  target month; when it does not, the result is not clamped but runs over into the
  following month, to its day \<open>d\<close> minus the length of the target month.
\<close>

theorem addMonths_rolls_over:
  assumes "addMonths h t (Fin r) = Inr u"
    and "num_add (of_int (MonthFromTime (LocalTime h t))) (Fin r) = Fin s"
    and "M = trunc s"
    and "ym = YearFromTime (LocalTime h t) + M div 12"
    and "mn = M mod 12"
    and "d = DateFromTime (LocalTime h t)"
  shows "\<exists>L. u = UTC h L
       \<and> TimeWithinDay L = TimeWithinDay (LocalTime h t)
       \<and> YearFromTime L = ym
       \<and> (if d \<le> DaysInMonth ym mn
          then MonthFromTime L = mn \<and> DateFromTime L = d
          else MonthFromTime L = mn + 1 \<and> DateFromTime L = d - DaysInMonth ym mn)"
proof -
  define lp :: int where "lp = (if DaysInYear ym = 366 then 1 else 0)"
  define tw where "tw = TimeWithinDay (LocalTime h t)"
  define L where "L = MakeDate (DayFromYear ym + monthStart mn lp + d - 1) tw"
  from addMonths_local [OF assms(1)] assms(2)
  have "u = UTC h (MakeDate
           (DayFromYear (YearFromTime (LocalTime h t) + trunc s div 12)
            + monthStart (trunc s mod 12)
                (if DaysInYear (YearFromTime (LocalTime h t) + trunc s div 12) = 366
                 then 1 else 0)
            + DateFromTime (LocalTime h t) - 1)
           (TimeWithinDay (LocalTime h t)))"
    by auto
  then have u: "u = UTC h L"
    by (simp only: assms(3,4,5,6) L_def lp_def tw_def)
  have tw: "0 \<le> tw" "tw < msPerDay"
    using TimeWithinDay_range by (simp_all add: tw_def)
  have mn: "0 \<le> mn" "mn \<le> 11"
    by (simp_all add: assms(5))
  have d: "1 \<le> d" "d \<le> 31"
    using DateFromTime_range by (simp_all add: assms(6))
  have key: "YearFromTime L = ym \<and> MonthFromTime L = m'
             \<and> DateFromTime L = d' \<and> TimeWithinDay L = tw"
    if "L = MakeDate (DayFromYear ym + monthStart m' lp + d' - 1) tw"
      and "0 \<le> m'" and "m' \<le> 11" and "1 \<le> d'" and "d' \<le> DaysInMonth ym m'"
    for m' d'
    unfolding that(1) lp_def by (intro conjI civil_roundtrip [OF that(2,3,4,5) tw])
  have "TimeWithinDay L = TimeWithinDay (LocalTime h t)
       \<and> YearFromTime L = ym
       \<and> (if d \<le> DaysInMonth ym mn
          then MonthFromTime L = mn \<and> DateFromTime L = d
          else MonthFromTime L = mn + 1 \<and> DateFromTime L = d - DaysInMonth ym mn)"
  proof (cases "d \<le> DaysInMonth ym mn")
    case True
    from key [OF L_def mn d(1) True] True show ?thesis
      by (simp add: tw_def)
  next
    case False
    then have over: "DaysInMonth ym mn < d"
      by simp
    note ov = overflow_month [OF mn over d(2)]
    have "DayFromYear ym + monthStart mn lp + d - 1
          = DayFromYear ym + monthStart (mn + 1) lp + (d - DaysInMonth ym mn) - 1"
      using ov(3) by (simp add: lp_def)
    then have L': "L = MakeDate (DayFromYear ym + monthStart (mn + 1) lp
                                   + (d - DaysInMonth ym mn) - 1) tw"
      by (simp only: L_def)
    have "0 \<le> mn + 1" and "1 \<le> d - DaysInMonth ym mn"
      using mn(1) over by simp_all
    from key [OF L' this(1) ov(1) this(2) ov(2)] False show ?thesis
      by (simp add: tw_def)
  qed
  with u show ?thesis
    by blast
qed

theorem addMonths_rolls_over_witness:
  "addMonths utcHost 1706659200000 (Fin 1) = Inr 1709337600000
   \<and> YearFromTime 1709337600000 = 2024
   \<and> MonthFromTime 1709337600000 = 2
   \<and> DateFromTime 1709337600000 = 2"
proof -
  have b: "addMonths utcHost 1706659200000 (Fin 1) = Inr 1709337600000"
    by code_simp
  have s: "num_add (of_int (MonthFromTime (LocalTime utcHost 1706659200000))) (Fin 1) = Fin 1"
    and c: "1 = trunc 1"
    and d: "2024 = YearFromTime (LocalTime utcHost 1706659200000) + 1 div 12"
    and e: "1 = (1 :: int) mod 12"
    and f: "31 = DateFromTime (LocalTime utcHost 1706659200000)"
    and g: "DaysInMonth 2024 1 = 29"
    by code_simp+
  from addMonths_rolls_over [OF b s c d e f]
  obtain L where "1709337600000 = UTC utcHost L" and "YearFromTime L = 2024"
    and "if (31 :: int) \<le> DaysInMonth 2024 1
         then MonthFromTime L = 1 \<and> DateFromTime L = 31
         else MonthFromTime L = 1 + 1 \<and> DateFromTime L = 31 - DaysInMonth 2024 1"
    by blast
  then have "L = 1709337600000" and "YearFromTime L = 2024" and "MonthFromTime L = 2"
    and "DateFromTime L = 2"
    by (simp_all add: UTC_def utcHost_def g)
  with b show ?thesis
    by simp
qed

text \<open>
  C5 as stated fails: one month after 31 January 2024 (UTC) is 2 March 2024, not the
  last day of February, which has 29 days that year.
\<close>

theorem addMonths_does_not_clamp:
  "(YearFromTime 1706659200000, MonthFromTime 1706659200000, DateFromTime 1706659200000)
     = (2024, 0, 31)
   \<and> DaysInMonth 2024 1 = 29
   \<and> addMonths utcHost 1706659200000 (Fin 1) = Inr 1709337600000
   \<and> (YearFromTime 1709337600000, MonthFromTime 1709337600000, DateFromTime 1709337600000)
     = (2024, 2, 2)"
  by code_simp

section \<open>Renewal\<close>

lemma renew_customer_ok:
  assumes "renew_customer h clk months c = (CustomerJson c', w)"
  shows "\<exists>n. months_or h months 3 = Some n
           \<and> addMonths h (if isExpired (expiresAt c) (clk 0) then clk 1 else expiresAt c) n
               = Inr (expiresAt c')
           \<and> c' = c\<lparr>expiresAt := expiresAt c'\<rparr> \<and> w = Some c'"
  using assms
  by (auto simp: renew_customer_def Let_def split: option.splits sum.splits)

text \<open>
  C4, as the code has it. A Renew that succeeds on an existing customer sets \<open>expiresAt\<close>
  to \<open>addMonths\<close> of a base date by \<open>Number(months) || 3\<close> months and changes nothing else;
  the base date is the existing \<open>expiresAt\<close> when the licence has not expired, and the
  current time when it has. When the licence has not expired and the number of months
  is at least 1, the new \<open>expiresAt\<close> is not before the old one, in whatever zone the
  host is (its local time within 14 days of UTC).
\<close>

theorem renew_extends_from_expiry:
  assumes "find (hasId i) (readData file) = Some c"
    and "renew h clk i months file = (CustomerJson c', file')"
  shows "\<exists>n. months_or h months 3 = Some n
           \<and> addMonths h (if isExpired (expiresAt c) (clk 0) then clk 1 else expiresAt c) n
               = Inr (expiresAt c')
           \<and> c' = c\<lparr>expiresAt := expiresAt c'\<rparr>
           \<and> file' = Parsed (update_first (hasId i) (\<lambda>_. c') (readData file))
           \<and> (\<not> isExpired (expiresAt c) (clk 0)
                \<and> (\<forall>x b. \<bar>LocalTZA h x b\<bar> \<le> 14 * msPerDay)
                \<and> (\<exists>r. n = Fin r \<and> 1 \<le> r) \<longrightarrow> expiresAt c \<le> expiresAt c')"
proof -
  from assms(2)
  have "on_found (hasId i) NotFound (renew_customer h clk months) file = (CustomerJson c', file')"
    by (simp add: renew_def)
  then obtain w where w: "renew_customer h clk months c = (CustomerJson c', w)"
    and f: "file' = (case w of None \<Rightarrow> file
                     | Some x \<Rightarrow> Parsed (update_first (hasId i) (\<lambda>_. x) (readData file)))"
    using assms(1) by (cases rule: on_found_cases) auto
  from renew_customer_ok [OF w] obtain n where n: "months_or h months 3 = Some n"
    "addMonths h (if isExpired (expiresAt c) (clk 0) then clk 1 else expiresAt c) n
       = Inr (expiresAt c')"
    "c' = c\<lparr>expiresAt := expiresAt c'\<rparr>" "w = Some c'"
    by blast
  have "expiresAt c \<le> expiresAt c'"
    if "\<not> isExpired (expiresAt c) (clk 0)" and "\<forall>x b. \<bar>LocalTZA h x b\<bar> \<le> 14 * msPerDay"
      and "n = Fin r" and "1 \<le> r" for r
    using addMonths_not_earlier [OF that(2,4), of "expiresAt c" "expiresAt c'"] n(2) that(1,3)
    by simp
  then have "\<not> isExpired (expiresAt c) (clk 0)
                \<and> (\<forall>x b. \<bar>LocalTZA h x b\<bar> \<le> 14 * msPerDay)
                \<and> (\<exists>r. n = Fin r \<and> 1 \<le> r) \<longrightarrow> expiresAt c \<le> expiresAt c'"
    by blast
  with n f show ?thesis
    by (intro exI [of _ n]) simp
qed

lemma sample_renewal:
  "renew utcHost (\<lambda>k. 1000) ''cust_k3j5x9q2k3j5'' (Some (JNum (Fin 1))) (Parsed [fresh])
   = (CustomerJson (fresh\<lparr>expiresAt := 1725062400000\<rparr>),
      Parsed [fresh\<lparr>expiresAt := 1725062400000\<rparr>])"
  by code_simp

theorem renew_extends_from_expiry_witness:
  "renew utcHost (\<lambda>k. 1000) ''cust_k3j5x9q2k3j5'' (Some (JNum (Fin 1))) (Parsed [fresh])
   = (CustomerJson (fresh\<lparr>expiresAt := 1725062400000\<rparr>),
      Parsed [fresh\<lparr>expiresAt := 1725062400000\<rparr>])
   \<and> addMonths utcHost (expiresAt fresh) (Fin 1) = Inr 1725062400000
   \<and> expiresAt fresh \<le> 1725062400000"
proof -
  have "find (hasId ''cust_k3j5x9q2k3j5'') (readData (Parsed [fresh])) = Some fresh"
    by (simp add: fresh_def hasId_def)
  from renew_extends_from_expiry [OF this sample_renewal]
  obtain n where n1: "months_or utcHost (Some (JNum (Fin 1))) 3 = Some n"
    and n2: "addMonths utcHost (if isExpired (expiresAt fresh) 1000 then 1000 else expiresAt fresh) n
         = Inr (expiresAt (fresh\<lparr>expiresAt := 1725062400000\<rparr>))"
    and n3: "\<not> isExpired (expiresAt fresh) 1000
         \<and> (\<forall>x b. \<bar>LocalTZA utcHost x b\<bar> \<le> 14 * msPerDay)
         \<and> (\<exists>r. n = Fin r \<and> 1 \<le> r)
         \<longrightarrow> expiresAt fresh \<le> expiresAt (fresh\<lparr>expiresAt := 1725062400000\<rparr>)"
    by blast
  from n1 have n: "n = Fin 1"
    by simp
  have later: "\<not> isExpired (expiresAt fresh) 1000"
    by (simp add: fresh_def isExpired_def)
  have "\<forall>x b. \<bar>LocalTZA utcHost x b\<bar> \<le> 14 * msPerDay"
    by (simp add: utcHost_def msPerDay_def)
  moreover have "\<exists>r. n = Fin r \<and> 1 \<le> r"
    using n by simp
  ultimately have "expiresAt fresh \<le> 1725062400000"
    using n3 later by simp
  moreover have "addMonths utcHost (expiresAt fresh) (Fin 1) = Inr 1725062400000"
    using n2 n later by simp
  ultimately show ?thesis
    using sample_renewal by simp
qed

text \<open>
  C4 as stated fails: renewing a licence that has not expired with \<open>months = -1\<close> moves
  its expiry one month back; and on a host that keeps daylight-saving time, renewing with
  \<open>months = 0.5\<close> a licence that expires in the hour after the clocks were set back moves
  its expiry one hour back.
\<close>

theorem renew_with_negative_months_shortens:
  "\<not> isExpired (expiresAt fresh) 1000
   \<and> renew utcHost (\<lambda>k. 1000) ''cust_k3j5x9q2k3j5'' (Some (JNum (Fin (- 1)))) (Parsed [fresh])
     = (CustomerJson (fresh\<lparr>expiresAt := 1719792000000\<rparr>),
        Parsed [fresh\<lparr>expiresAt := 1719792000000\<rparr>])
   \<and> 1719792000000 < expiresAt fresh
   \<and> \<not> isExpired 1730615400000 1000
   \<and> renew dstHost (\<lambda>k. 1000) ''cust_k3j5x9q2k3j5'' (Some (JNum (Fin (1 / 2))))
       (Parsed [fresh\<lparr>expiresAt := 1730615400000\<rparr>])
     = (CustomerJson (fresh\<lparr>expiresAt := 1730611800000\<rparr>),
        Parsed [fresh\<lparr>expiresAt := 1730611800000\<rparr>])"
  by code_simp

end
